theory Spec2Isabelle
  imports Main
begin

section \<open>gpasswd: data model\<close>

text \<open>
  The program administers one group record of \<^verbatim>\<open>/etc/group\<close> and, when shadow groups
  are compiled in and \<^verbatim>\<open>/etc/gshadow\<close> is present, its companion shadow record.
  C strings are modelled as \<open>string\<close>, NULL-terminated \<^verbatim>\<open>char **\<close> lists as
  \<open>string list\<close>, pointers that may be NULL as \<open>option\<close>.
\<close>

record struct_group =
  gr_name :: string
  gr_passwd :: string
  gr_gid :: nat
  gr_mem :: "string list"

record struct_sgrp =
  sg_name :: string
  sg_passwd :: string
  sg_adm :: "string list"
  sg_mem :: "string list"

text \<open>
  Compile-time configuration: the two preprocessor switches of the source, and the
  constants and the copy macro the source takes from headers (\<^verbatim>\<open>exitcodes.h\<close>,
  \<^verbatim>\<open>defines.h\<close>, \<^verbatim>\<open>stdio.h\<close>), kept as parameters. \<open>STRFCPY n s\<close> is the content
  of a buffer of \<open>n\<close> bytes after \<^verbatim>\<open>STRFCPY (buffer, s)\<close>.
\<close>

record config =
  SHADOWGRP :: bool
  FIRST_MEMBER_IS_ADMIN :: bool
  E_SUCCESS :: int
  E_USAGE :: int
  BUFSIZ :: nat
  SHADOW_PASSWD_STRING :: string
  STRFCPY :: "nat \<Rightarrow> string \<Rightarrow> char list"

text \<open>\<^verbatim>\<open>#ifndef RETRIES #define RETRIES 3\<close>\<close>

definition RETRIES :: nat where
  "RETRIES = 3"

datatype mode = O_RDONLY | O_RDWR

text \<open>
  The world outside the program: the identity store, the two record stores with the
  results their adapter calls return (\<open>True\<close> is the adapter's nonzero "success"), the
  terminal, and the library routines whose code is not part of this file
  (\<^verbatim>\<open>pw_encrypt\<close> with its salt, \<^verbatim>\<open>comma_to_list\<close>).
\<close>

record world =
  getuid :: nat
  getpwnam :: "string \<Rightarrow> bool"
  get_my_pwent :: "string option"
  sgr_file_present :: bool
  gr_locate :: "string \<Rightarrow> struct_group option"
  sgr_locate :: "string \<Rightarrow> struct_sgrp option"
  gr_lock :: bool
  sgr_lock :: bool
  gr_unlock :: bool
  sgr_unlock :: bool
  gr_open :: "mode \<Rightarrow> bool"
  sgr_open :: "mode \<Rightarrow> bool"
  gr_close :: "mode \<Rightarrow> bool"
  sgr_close :: "mode \<Rightarrow> bool"
  gr_update :: "struct_group \<Rightarrow> bool"
  sgr_update :: "struct_sgrp \<Rightarrow> bool"
  setuid0 :: bool
  isatty :: "nat \<Rightarrow> bool"
  getpass :: "nat \<Rightarrow> string option"
  pw_encrypt :: "string \<Rightarrow> string"
  comma_to_list :: "string \<Rightarrow> string list"

datatype message =
    Usage
  | User_does_not_exist string
  | Permission_denied
  | Shadow_required_for_A
  | Cannot_lock_group
  | Cannot_lock_gshadow
  | Cannot_open_group
  | Cannot_open_gshadow
  | Cannot_rewrite_group
  | Cannot_rewrite_gshadow
  | Cannot_unlock_group
  | Cannot_unlock_gshadow
  | Cannot_update_group string
  | Cannot_update_gshadow string
  | Group_does_not_exist string
  | Who_are_you
  | Not_a_member string string
  | Not_a_tty
  | Try_again_later
  | Cannot_change_id
  | Changing_password_for "string option"
  | Adding_user string "string option"
  | Removing_user string "string option"
  | They_dont_match

datatype prompt = New_password | Reenter_new_password

text \<open>
  Every call that leaves the program is recorded, in order, with the value it returned.
  Audit and syslog records are not modelled: they change no control flow.
\<close>

datatype event =
    Stderr message
  | Stdout message
  | Getpwnam string bool
  | Gr_lock bool
  | Sgr_lock bool
  | Gr_unlock bool
  | Sgr_unlock bool
  | Gr_open mode bool
  | Sgr_open mode bool
  | Gr_close bool
  | Sgr_close bool
  | Gr_locate string
  | Sgr_locate string
  | Gr_update struct_group bool
  | Sgr_update struct_sgrp bool
  | Setuid0 bool
  | Pwd_init
  | Isatty nat bool
  | Save_tty
  | Install_signal_handlers
  | Getpass prompt "string option"
  | Nscd_flush_cache

text \<open>
  The global variables of the source, the two locals of \<^verbatim>\<open>main\<close> that are passed by
  pointer (\<open>grent\<close>, \<open>sgent\<close>), the static buffer \<open>pass\<close> and the loop counter
  \<open>retries\<close> of \<^verbatim>\<open>change_passwd\<close>, the buffer \<^verbatim>\<open>getpass\<close> returns with the number
  of calls made to it, and the trace of events so far.
\<close>

record state =
  is_shadowgrp :: bool
  gshadow_locked :: bool
  group_locked :: bool
  aflg :: bool
  Aflg :: bool
  dflg :: bool
  Mflg :: bool
  rflg :: bool
  Rflg :: bool
  group_nm :: "string option"
  user :: "string option"
  members :: "string option"
  admins :: "string option"
  myname :: "string option"
  bywho :: nat
  grent :: struct_group
  sgent :: struct_sgrp
  pass :: "char list"
  getpass_buf :: "char list"
  getpass_calls :: nat
  retries :: nat
  trace :: "event list"

text \<open>
  A function of the source either returns (\<open>Cont\<close>), or ends the process with a status
  (\<open>Exit\<close>), or dereferences a NULL pointer (\<open>Undefined_behaviour\<close>).
\<close>

datatype outcome = Exit int state | Cont state | Undefined_behaviour

definition seq :: "outcome \<Rightarrow> (state \<Rightarrow> outcome) \<Rightarrow> outcome" where
  "seq m f = (case m of Exit s st \<Rightarrow> Exit s st | Cont st \<Rightarrow> f st
                | Undefined_behaviour \<Rightarrow> Undefined_behaviour)"

definition emit :: "event \<Rightarrow> state \<Rightarrow> state" where
  "emit e st = st\<lparr>trace := trace st @ [e]\<rparr>"

definition amroot :: "state \<Rightarrow> bool" where
  "amroot st = (0 = bywho st)"

text \<open>\<^verbatim>\<open>is_shadowgrp\<close> exists only under \<^verbatim>\<open>#ifdef SHADOWGRP\<close>.\<close>

definition shadow_in_use :: "config \<Rightarrow> state \<Rightarrow> bool" where
  "shadow_in_use cfg st = (SHADOWGRP cfg \<and> is_shadowgrp st)"

section \<open>List helpers of the library\<close>

text \<open>
  Modelled from the spec: \<^verbatim>\<open>is_on_list\<close> is in the library's list module, not in
  gpasswd.c. The spec: "contains(list, name) -> bool", a case-sensitive exact match.
\<close>

definition is_on_list :: "string list \<Rightarrow> string \<Rightarrow> bool" where
  "is_on_list list member = (member \<in> set list)"

text \<open>
  Modelled from the spec: \<^verbatim>\<open>add_list\<close> is in the library's list module. The spec:
  "add(list, name) -> list': appends if absent; no-op if already present".
\<close>

definition add_list :: "string list \<Rightarrow> string \<Rightarrow> string list" where
  "add_list list member = (if member \<in> set list then list else list @ [member])"

text \<open>
  Modelled from the spec: \<^verbatim>\<open>del_list\<close> is in the library's list module. The spec:
  "remove(list, name): removes all occurrences".
\<close>

definition del_list :: "string list \<Rightarrow> string \<Rightarrow> string list" where
  "del_list list member = filter (\<lambda>m. m \<noteq> member) list"

text \<open>\<^verbatim>\<open>dup_list\<close> copies a list; values have no identity here.\<close>

definition dup_list :: "string list \<Rightarrow> string list" where
  "dup_list list = list"

section \<open>Leaving the program\<close>

definition usage :: "config \<Rightarrow> state \<Rightarrow> outcome" where
  "usage cfg st = Exit (E_USAGE cfg) (emit (Stderr Usage) st)"

text \<open>\<^verbatim>\<open>fail_exit\<close>: undo as much as possible, then exit.\<close>

definition fail_exit :: "config \<Rightarrow> world \<Rightarrow> int \<Rightarrow> state \<Rightarrow> outcome" where
  "fail_exit cfg w status st =
     (let st1 = (if group_locked st then
                   (let s = emit (Gr_unlock (gr_unlock w)) st
                    in if \<not> gr_unlock w then emit (Stderr Cannot_unlock_group) s else s)
                 else st);
          st2 = (if SHADOWGRP cfg \<and> gshadow_locked st1 then
                   (let s = emit (Sgr_unlock (sgr_unlock w)) st1
                    in if \<not> sgr_unlock w then emit (Stderr Cannot_unlock_gshadow) s else s)
                 else st1)
      in Exit status st2)"

definition failure :: "config \<Rightarrow> world \<Rightarrow> state \<Rightarrow> outcome" where
  "failure cfg w st = fail_exit cfg w 1 (emit (Stderr Permission_denied) st)"

section \<open>Validating a comma-separated list of user names\<close>

text \<open>\<^verbatim>\<open>strchr (start, ',')\<close>: the offset of the first comma, if there is one.\<close>

definition strchr_comma :: "string \<Rightarrow> nat option" where
  "strchr_comma s =
     (if CHR '','' \<in> set s then Some (length (takeWhile (\<lambda>c. c \<noteq> CHR '','') s)) else None)"

text \<open>
  The loop of \<^verbatim>\<open>is_valid_user_list\<close>. \<open>start\<close> is the rest of the string; the loop
  ends at the terminating NUL or when \<open>end\<close> is NULL (both are \<open>[]\<close> here).
  \<^verbatim>\<open>sizeof (username) - 1\<close> is 31.
\<close>

function valid_user_loop :: "world \<Rightarrow> string \<Rightarrow> bool \<Rightarrow> state \<Rightarrow> bool \<times> state" where
  "valid_user_loop w start valid st =
     (if start = [] then (valid, st)
      else
        (let (len0, end) = (case strchr_comma start of
                              Some i \<Rightarrow> (i, drop (Suc i) start)
                            | None \<Rightarrow> (length start, []));
             len = (if len0 > 31 then 31 else len0);
             username = take len start;
             found = getpwnam w username;
             st1 = emit (Getpwnam username found) st
         in if \<not> found
            then valid_user_loop w end False (emit (Stderr (User_does_not_exist username)) st1)
            else valid_user_loop w end valid st1))"
  by pat_completeness auto
termination
  by (relation "measure (\<lambda>(w, start, valid, st). length start)")
     (auto split: option.splits)

definition is_valid_user_list :: "world \<Rightarrow> string \<Rightarrow> state \<Rightarrow> bool \<times> state" where
  "is_valid_user_list w users st = valid_user_loop w users True st"

section \<open>Authorization\<close>

text \<open>\<^verbatim>\<open>check_perms\<close> only returns if the user is allowed.\<close>

definition check_perms :: "config \<Rightarrow> world \<Rightarrow> state \<Rightarrow> outcome" where
  "check_perms cfg w st =
     (if SHADOWGRP cfg \<and> is_shadowgrp st then
        (if amroot st then Cont st
         else (case myname st of
                 None \<Rightarrow> Undefined_behaviour
               | Some me \<Rightarrow>
                   if \<not> is_on_list (sg_adm (sgent st)) me then failure cfg w st else Cont st))
      else if FIRST_MEMBER_IS_ADMIN cfg then
        (if \<not> amroot st then
           (case gr_mem (grent st) of
              [] \<Rightarrow> failure cfg w st
            | first # _ \<Rightarrow>
                (case myname st of
                   None \<Rightarrow> Undefined_behaviour
                 | Some me \<Rightarrow> if first \<noteq> me then failure cfg w st else Cont st))
         else Cont st)
      else
        (if \<not> amroot st then failure cfg w st else Cont st))"

section \<open>Command line\<close>

text \<open>
  What \<^verbatim>\<open>getopt (argc, argv, "a:A:d:gM:rR")\<close> returns, call after call, and what is
  left when it returns EOF: \<open>optind\<close> and the operands \<^verbatim>\<open>argv[optind .. argc - 1]\<close>.
\<close>

datatype getopt_result =
    Flag_a string
  | Flag_A string
  | Flag_d string
  | Flag_g
  | Flag_M string
  | Flag_r
  | Flag_R
  | Flag_unknown

record cmdline =
  flags :: "getopt_result list"
  optind :: nat
  operands :: "string list"

definition argc :: "cmdline \<Rightarrow> nat" where
  "argc args = optind args + length (operands args)"

text \<open>One turn of the \<^verbatim>\<open>switch\<close> in \<^verbatim>\<open>process_flags\<close>.\<close>

definition process_flag :: "config \<Rightarrow> world \<Rightarrow> getopt_result \<Rightarrow> state \<Rightarrow> outcome" where
  "process_flag cfg w flag st =
     (case flag of
        Flag_a optarg \<Rightarrow>
          (let st1 = st\<lparr>user := Some optarg\<rparr>;
               found = getpwnam w optarg;
               st2 = emit (Getpwnam optarg found) st1
           in if \<not> found
              then fail_exit cfg w 1 (emit (Stderr (User_does_not_exist optarg)) st2)
              else Cont (st2\<lparr>aflg := True\<rparr>))
      | Flag_A optarg \<Rightarrow>
          if SHADOWGRP cfg then
            (if \<not> amroot st then failure cfg w st
             else if \<not> is_shadowgrp st
             then fail_exit cfg w 2 (emit (Stderr Shadow_required_for_A) st)
             else (let st1 = st\<lparr>admins := Some optarg\<rparr>;
                       (valid, st2) = is_valid_user_list w optarg st1
                   in if \<not> valid then fail_exit cfg w 1 st2
                      else Cont (st2\<lparr>Aflg := True\<rparr>)))
          else usage cfg st
      | Flag_d optarg \<Rightarrow> Cont (st\<lparr>dflg := True, user := Some optarg\<rparr>)
      | Flag_g \<Rightarrow> Cont st
      | Flag_M optarg \<Rightarrow>
          (if \<not> amroot st then failure cfg w st
           else (let st1 = st\<lparr>members := Some optarg\<rparr>;
                     (valid, st2) = is_valid_user_list w optarg st1
                 in if \<not> valid then fail_exit cfg w 1 st2
                    else Cont (st2\<lparr>Mflg := True\<rparr>)))
      | Flag_r \<Rightarrow> Cont (st\<lparr>rflg := True\<rparr>)
      | Flag_R \<Rightarrow> Cont (st\<lparr>Rflg := True\<rparr>)
      | Flag_unknown \<Rightarrow> usage cfg st)"

fun process_flag_loop :: "config \<Rightarrow> world \<Rightarrow> getopt_result list \<Rightarrow> state \<Rightarrow> outcome" where
  "process_flag_loop cfg w [] st = Cont st"
| "process_flag_loop cfg w (flag # rest) st =
     seq (process_flag cfg w flag st) (process_flag_loop cfg w rest)"

definition check_flags :: "config \<Rightarrow> nat \<Rightarrow> nat \<Rightarrow> state \<Rightarrow> outcome" where
  "check_flags cfg argc_v opt_index st =
     (let exclusive = (if aflg st then 1 else 0) + (if dflg st then 1 else 0)
                    + (if rflg st then 1 else 0) + (if Rflg st then 1 else 0)
                    + (if Aflg st \<or> Mflg st then 1 else (0::nat))
      in if exclusive > 1 then usage cfg st
         else if argc_v \<noteq> opt_index + 1 \<or> group_nm st = None then usage cfg st
         else Cont st)"

definition process_flags :: "config \<Rightarrow> world \<Rightarrow> cmdline \<Rightarrow> state \<Rightarrow> outcome" where
  "process_flags cfg w args st =
     seq (process_flag_loop cfg w (flags args) st)
       (\<lambda>st. check_flags cfg (argc args) (optind args)
                (st\<lparr>group_nm := (case operands args of [] \<Rightarrow> None | g # _ \<Rightarrow> Some g)\<rparr>))"

section \<open>Locking, opening, updating and closing the stores\<close>

definition open_files :: "config \<Rightarrow> world \<Rightarrow> state \<Rightarrow> outcome" where
  "open_files cfg w st =
     (let st1 = emit (Gr_lock (gr_lock w)) st
      in if \<not> gr_lock w then fail_exit cfg w 1 (emit (Stderr Cannot_lock_group) st1)
         else
           seq (let st2 = st1\<lparr>group_locked := True\<rparr>
                in if SHADOWGRP cfg \<and> is_shadowgrp st2 then
                     (let st3 = emit (Sgr_lock (sgr_lock w)) st2
                      in if \<not> sgr_lock w
                         then fail_exit cfg w 1 (emit (Stderr Cannot_lock_gshadow) st3)
                         else Cont (st3\<lparr>gshadow_locked := True\<rparr>))
                   else Cont st2)
             (\<lambda>st4.
                let st5 = emit (Gr_open O_RDWR (gr_open w O_RDWR)) st4
                in if \<not> gr_open w O_RDWR
                   then fail_exit cfg w 1 (emit (Stderr Cannot_open_group) st5)
                   else if SHADOWGRP cfg \<and> is_shadowgrp st5 then
                     (let st6 = emit (Sgr_open O_RDWR (sgr_open w O_RDWR)) st5
                      in if \<not> sgr_open w O_RDWR
                         then fail_exit cfg w 1 (emit (Stderr Cannot_open_gshadow) st6)
                         else Cont st6)
                   else Cont st5))"

definition close_files :: "config \<Rightarrow> world \<Rightarrow> state \<Rightarrow> outcome" where
  "close_files cfg w st =
     (let st1 = emit (Gr_close (gr_close w O_RDWR)) st
      in if \<not> gr_close w O_RDWR
         then fail_exit cfg w 1 (emit (Stderr Cannot_rewrite_group) st1)
         else
           seq (if SHADOWGRP cfg \<and> is_shadowgrp st1 then
                  (let st2 = emit (Sgr_close (sgr_close w O_RDWR)) st1
                   in if \<not> sgr_close w O_RDWR
                      then fail_exit cfg w 1 (emit (Stderr Cannot_rewrite_gshadow) st2)
                      else
                        (let st3 = emit (Sgr_unlock (sgr_unlock w)) st2;
                             st4 = (if \<not> sgr_unlock w
                                    then emit (Stderr Cannot_unlock_gshadow) st3 else st3)
                         in Cont (st4\<lparr>gshadow_locked := False\<rparr>)))
                else Cont st1)
             (\<lambda>st5.
                let st6 = emit (Gr_unlock (gr_unlock w)) st5;
                    st7 = (if \<not> gr_unlock w
                           then emit (Stderr Cannot_unlock_group) st6 else st6)
                in Cont (st7\<lparr>group_locked := False\<rparr>)))"

definition update_group :: "config \<Rightarrow> world \<Rightarrow> state \<Rightarrow> outcome" where
  "update_group cfg w st =
     (let gr = grent st;
          st1 = emit (Gr_update gr (gr_update w gr)) st
      in if \<not> gr_update w gr
         then fail_exit cfg w 1 (emit (Stderr (Cannot_update_group (gr_name gr))) st1)
         else if SHADOWGRP cfg \<and> is_shadowgrp st1 then
           (let sg = sgent st1;
                st2 = emit (Sgr_update sg (sgr_update w sg)) st1
            in if \<not> sgr_update w sg
               then fail_exit cfg w 1 (emit (Stderr (Cannot_update_gshadow (sg_name sg))) st2)
               else Cont st2)
         else Cont st1)"

section \<open>Loading the record pair\<close>

text \<open>
  The shadow record made up when the shadow store has none for the group: the
  \<^verbatim>\<open>else\<close> branch of \<^verbatim>\<open>get_group\<close>, which also moves the password out of the
  primary record.
\<close>

definition synthesize_sgrp :: "config \<Rightarrow> string \<Rightarrow> state \<Rightarrow> state" where
  "synthesize_sgrp cfg g st =
     (let st1 = st\<lparr>sgent := (sgent st)\<lparr>sg_name := g\<rparr>\<rparr>;
          st2 = st1\<lparr>sgent := (sgent st1)\<lparr>sg_passwd := gr_passwd (grent st1)\<rparr>\<rparr>;
          st3 = st2\<lparr>grent := (grent st2)\<lparr>gr_passwd := SHADOW_PASSWD_STRING cfg\<rparr>\<rparr>;
          st4 = st3\<lparr>sgent := (sgent st3)\<lparr>sg_mem := dup_list (gr_mem (grent st3))\<rparr>\<rparr>
      in if FIRST_MEMBER_IS_ADMIN cfg
         then (case sg_mem (sgent st4) of
                 first # _ \<Rightarrow> st4\<lparr>sgent := (sgent st4)\<lparr>sg_adm := [first]\<rparr>\<rparr>
               | [] \<Rightarrow> st4\<lparr>sgent := (sgent st4)\<lparr>sg_adm := []\<rparr>\<rparr>)
         else st4\<lparr>sgent := (sgent st4)\<lparr>sg_adm := []\<rparr>\<rparr>)"

definition get_group :: "config \<Rightarrow> world \<Rightarrow> state \<Rightarrow> outcome" where
  "get_group cfg w st =
     (let st1 = emit (Gr_open O_RDONLY (gr_open w O_RDONLY)) st
      in if \<not> gr_open w O_RDONLY
         then fail_exit cfg w 1 (emit (Stderr Cannot_open_group) st1)
         else
           (case group_nm st1 of
              None \<Rightarrow> Undefined_behaviour
            | Some g \<Rightarrow>
                (let st2 = emit (Gr_locate g) st1
                 in case gr_locate w g of
                      None \<Rightarrow> failure cfg w (emit (Stderr (Group_does_not_exist g)) st2)
                    | Some tmpgr \<Rightarrow>
                        (let st3 = st2\<lparr>grent := tmpgr\<lparr>gr_mem := dup_list (gr_mem tmpgr)\<rparr>\<rparr>;
                             st4 = emit (Gr_close (gr_close w O_RDONLY)) st3
                         in if \<not> gr_close w O_RDONLY
                            then fail_exit cfg w 1 (emit (Stderr Cannot_rewrite_group) st4)
                            else if SHADOWGRP cfg \<and> is_shadowgrp st4 then
                              (let st5 = emit (Sgr_open O_RDONLY (sgr_open w O_RDONLY)) st4
                               in if \<not> sgr_open w O_RDONLY
                                  then fail_exit cfg w 1 (emit (Stderr Cannot_open_gshadow) st5)
                                  else
                                    (let st6 = emit (Sgr_locate g) st5;
                                         st7 = (case sgr_locate w g of
                                                  Some tmpsg \<Rightarrow>
                                                    st6\<lparr>sgent := tmpsg
                                                      \<lparr>sg_mem := dup_list (sg_mem tmpsg),
                                                       sg_adm := dup_list (sg_adm tmpsg)\<rparr>\<rparr>
                                                | None \<Rightarrow> synthesize_sgrp cfg g st6);
                                         st8 = emit (Sgr_close (sgr_close w O_RDONLY)) st7
                                     in if \<not> sgr_close w O_RDONLY
                                        then fail_exit cfg w 1
                                               (emit (Stderr Cannot_rewrite_gshadow) st8)
                                        else Cont st8))
                            else Cont st4))))"

section \<open>Changing the password\<close>

definition NUL :: char where
  "NUL = CHR 0x00"

text \<open>The C string held in a buffer: the bytes before the first NUL.\<close>

definition c_str :: "char list \<Rightarrow> string" where
  "c_str buf = takeWhile (\<lambda>c. c \<noteq> NUL) buf"

text \<open>
  Modelled from the spec: \<^verbatim>\<open>memzero\<close> and \<^verbatim>\<open>strzero\<close> are macros of
  \<^verbatim>\<open>defines.h\<close>, not in gpasswd.c. The spec: "zero the failed buffers". \<open>memzero\<close>
  zeroes the first \<open>n\<close> bytes, \<open>strzero\<close> the bytes of the string.
\<close>

definition memzero :: "char list \<Rightarrow> nat \<Rightarrow> char list" where
  "memzero buf n = replicate n NUL @ drop n buf"

definition strzero :: "char list \<Rightarrow> char list" where
  "strzero buf = memzero buf (length (c_str buf))"

text \<open>
  \<^verbatim>\<open>getpass\<close> reads one line from the terminal into its own buffer and returns it, or
  returns NULL.
\<close>

definition call_getpass :: "world \<Rightarrow> prompt \<Rightarrow> state \<Rightarrow> string option \<times> state" where
  "call_getpass w p st =
     (let cp = map_option c_str (getpass w (getpass_calls st));
          st1 = emit (Getpass p cp) (st\<lparr>getpass_calls := Suc (getpass_calls st)\<rparr>)
      in (cp, case cp of None \<Rightarrow> st1 | Some s \<Rightarrow> st1\<lparr>getpass_buf := s\<rparr>))"

text \<open>
  One turn of the \<^verbatim>\<open>for\<close> loop of \<^verbatim>\<open>change_passwd\<close>, up to its
  \<^verbatim>\<open>if (retries + 1 < RETRIES)\<close>. \<^verbatim>\<open>sizeof pass\<close> is \<open>BUFSIZ\<close>, the length of the
  buffer \<open>pass\<close>.
\<close>

datatype attempt = Aborted outcome | Matched state | Mismatched state

definition passwd_attempt :: "config \<Rightarrow> world \<Rightarrow> state \<Rightarrow> attempt" where
  "passwd_attempt cfg w st =
     (case call_getpass w New_password st of
        (None, st1) \<Rightarrow> Aborted (fail_exit cfg w 1 st1)
      | (Some cp, st1) \<Rightarrow>
          (let st2 = st1\<lparr>pass := STRFCPY cfg (BUFSIZ cfg) cp\<rparr>;
               st3 = st2\<lparr>getpass_buf := strzero (getpass_buf st2)\<rparr>
           in case call_getpass w Reenter_new_password st3 of
                (None, st4) \<Rightarrow> Aborted (fail_exit cfg w 1 st4)
              | (Some cp2, st4) \<Rightarrow>
                  if c_str (pass st4) = cp2
                  then Matched (st4\<lparr>getpass_buf := strzero (getpass_buf st4)\<rparr>)
                  else
                    (let st5 = st4\<lparr>getpass_buf := strzero (getpass_buf st4)\<rparr>
                     in Mismatched (st5\<lparr>pass := memzero (pass st5) (length (pass st5))\<rparr>))))"

function change_passwd_loop :: "config \<Rightarrow> world \<Rightarrow> state \<Rightarrow> outcome" where
  "change_passwd_loop cfg w st =
     (if retries st < RETRIES then
        (case passwd_attempt cfg w st of
           Aborted out \<Rightarrow> out
         | Matched st1 \<Rightarrow> Cont st1
         | Mismatched st1 \<Rightarrow>
             (let st2 = (if retries st1 + 1 < RETRIES
                         then emit (Stdout They_dont_match) st1 else st1)
              in change_passwd_loop cfg w (st2\<lparr>retries := retries st2 + 1\<rparr>)))
      else Cont st)"
  by pat_completeness auto

termination
  by (relation "measure (\<lambda>(cfg, w, st). RETRIES - retries st)")
     (auto simp: passwd_attempt_def call_getpass_def emit_def Let_def
           split: option.splits prod.splits if_splits)

definition change_passwd :: "config \<Rightarrow> world \<Rightarrow> state \<Rightarrow> outcome" where
  "change_passwd cfg w st =
     seq (change_passwd_loop cfg w
            (emit (Stdout (Changing_password_for (group_nm st))) (st\<lparr>retries := 0\<rparr>)))
       (\<lambda>st1.
          if retries st1 = RETRIES
          then fail_exit cfg w 1 (emit (Stderr Try_again_later) st1)
          else
            (let cp = pw_encrypt w (c_str (pass st1));
                 st2 = st1\<lparr>pass := memzero (pass st1) (length (pass st1))\<rparr>
             in if SHADOWGRP cfg \<and> is_shadowgrp st2
                then Cont (st2\<lparr>sgent := (sgent st2)\<lparr>sg_passwd := cp\<rparr>\<rparr>)
                else Cont (st2\<lparr>grent := (grent st2)\<lparr>gr_passwd := cp\<rparr>\<rparr>)))"

section \<open>The transaction\<close>

text \<open>
  The part of \<^verbatim>\<open>main\<close> between \<^verbatim>\<open>check_perms\<close> and the label \<^verbatim>\<open>output\<close>: the one
  operation the flags select, applied to the in-memory pair. Signals are not modelled:
  of \<^verbatim>\<open>catch_signals\<close> only the call that saves the terminal modes is here, not the
  handler that a signal runs.
\<close>

definition operation :: "config \<Rightarrow> world \<Rightarrow> state \<Rightarrow> outcome" where
  "operation cfg w st =
     (if rflg st then
        (let st1 = st\<lparr>grent := (grent st)\<lparr>gr_passwd := []\<rparr>\<rparr>
         in Cont (if SHADOWGRP cfg then st1\<lparr>sgent := (sgent st1)\<lparr>sg_passwd := []\<rparr>\<rparr> else st1))
      else if Rflg st then
        (let st1 = st\<lparr>grent := (grent st)\<lparr>gr_passwd := ''!''\<rparr>\<rparr>
         in Cont (if SHADOWGRP cfg then st1\<lparr>sgent := (sgent st1)\<lparr>sg_passwd := ''!''\<rparr>\<rparr> else st1))
      else if aflg st then
        (case user st of
           None \<Rightarrow> Undefined_behaviour
         | Some u \<Rightarrow>
             (let st1 = emit (Stdout (Adding_user u (group_nm st))) st;
                  st2 = st1\<lparr>grent := (grent st1)\<lparr>gr_mem := add_list (gr_mem (grent st1)) u\<rparr>\<rparr>
              in Cont (if SHADOWGRP cfg \<and> is_shadowgrp st2
                       then st2\<lparr>sgent := (sgent st2)\<lparr>sg_mem := add_list (sg_mem (sgent st2)) u\<rparr>\<rparr>
                       else st2)))
      else if dflg st then
        (case user st of
           None \<Rightarrow> Undefined_behaviour
         | Some u \<Rightarrow>
             (let st1 = emit (Stdout (Removing_user u (group_nm st))) st;
                  (removed1, st2) =
                     (if is_on_list (gr_mem (grent st1)) u
                      then (True, st1\<lparr>grent := (grent st1)
                                       \<lparr>gr_mem := del_list (gr_mem (grent st1)) u\<rparr>\<rparr>)
                      else (False, st1));
                  (removed, st3) =
                     (if SHADOWGRP cfg \<and> is_shadowgrp st2 \<and> is_on_list (sg_mem (sgent st2)) u
                      then (True, st2\<lparr>sgent := (sgent st2)
                                       \<lparr>sg_mem := del_list (sg_mem (sgent st2)) u\<rparr>\<rparr>)
                      else (removed1, st2))
              in if \<not> removed
                 then (case group_nm st3 of
                         None \<Rightarrow> Undefined_behaviour
                       | Some g \<Rightarrow> fail_exit cfg w 1 (emit (Stderr (Not_a_member u g)) st3))
                 else Cont st3))
      else
        seq (if SHADOWGRP cfg \<and> Aflg st then
               (case admins st of
                  None \<Rightarrow> Undefined_behaviour
                | Some a \<Rightarrow> Cont (st\<lparr>sgent := (sgent st)\<lparr>sg_adm := comma_to_list w a\<rparr>\<rparr>))
             else Cont st)
          (\<lambda>st1.
             if SHADOWGRP cfg \<and> Aflg st1 \<and> \<not> Mflg st1 then Cont st1
             else if Mflg st1 then
               (case members st1 of
                  None \<Rightarrow> Undefined_behaviour
                | Some m \<Rightarrow>
                    (let st2 = (if SHADOWGRP cfg
                                then st1\<lparr>sgent := (sgent st1)\<lparr>sg_mem := comma_to_list w m\<rparr>\<rparr>
                                else st1)
                     in Cont (st2\<lparr>grent := (grent st2)\<lparr>gr_mem := comma_to_list w m\<rparr>\<rparr>)))
             else
               (let st2 = emit (Isatty 0 (isatty w 0)) st1;
                    st3 = (if isatty w 0 then emit (Isatty 1 (isatty w 1)) st2 else st2)
                in if \<not> isatty w 0 \<or> \<not> isatty w 1
                   then fail_exit cfg w 1 (emit (Stderr Not_a_tty) st3)
                   else change_passwd cfg w
                          (emit Install_signal_handlers (emit Save_tty st3)))))"

text \<open>From the label \<^verbatim>\<open>output\<close> to the end of \<^verbatim>\<open>main\<close>.\<close>

definition output_phase :: "config \<Rightarrow> world \<Rightarrow> state \<Rightarrow> outcome" where
  "output_phase cfg w st =
     (let st1 = emit (Setuid0 (setuid0 w)) st
      in if \<not> setuid0 w then fail_exit cfg w 1 (emit (Stderr Cannot_change_id) st1)
         else
           seq (open_files cfg w (emit Pwd_init st1))
             (\<lambda>st2. seq (update_group cfg w st2)
                (\<lambda>st3. seq (close_files cfg w st3)
                   (\<lambda>st4. Exit (E_SUCCESS cfg) (emit Nscd_flush_cache st4)))))"

text \<open>
  The state \<^verbatim>\<open>main\<close> starts in: the statics have their initialisers, the locals
  \<open>grent\<close> and \<open>sgent\<close> hold whatever the stack held.
\<close>

definition initial_state :: "config \<Rightarrow> struct_group \<Rightarrow> struct_sgrp \<Rightarrow> state" where
  "initial_state cfg gr0 sg0 =
     \<lparr>is_shadowgrp = False, gshadow_locked = False, group_locked = False,
      aflg = False, Aflg = False, dflg = False, Mflg = False, rflg = False, Rflg = False,
      group_nm = None, user = None, members = None, admins = None, myname = None,
      bywho = 0, grent = gr0, sgent = sg0,
      pass = replicate (BUFSIZ cfg) NUL, getpass_buf = [], getpass_calls = 0,
      retries = 0, trace = []\<rparr>"

definition main_from :: "config \<Rightarrow> world \<Rightarrow> cmdline \<Rightarrow> state \<Rightarrow> outcome" where
  "main_from cfg w args st0 =
     (let st1 = st0\<lparr>bywho := getuid w\<rparr>;
          st2 = (if SHADOWGRP cfg then st1\<lparr>is_shadowgrp := sgr_file_present w\<rparr> else st1)
      in seq (process_flags cfg w args st2)
           (\<lambda>st3.
              case get_my_pwent w of
                None \<Rightarrow> failure cfg w (emit (Stderr Who_are_you) st3)
              | Some name \<Rightarrow>
                  seq (get_group cfg w (st3\<lparr>myname := Some name\<rparr>))
                    (\<lambda>st4. seq (check_perms cfg w st4)
                       (\<lambda>st5. seq (operation cfg w st5) (output_phase cfg w)))))"

definition main :: "config \<Rightarrow> world \<Rightarrow> cmdline \<Rightarrow> struct_group \<Rightarrow> struct_sgrp \<Rightarrow> outcome" where
  "main cfg w args gr0 sg0 = main_from cfg w args (initial_state cfg gr0 sg0)"

section \<open>The spec's vocabulary\<close>

text \<open>
  The authorization policy in the spec's words: root is always allowed; else, with a
  shadow store in use, the caller must be on the admin list; else, under the legacy flag,
  the caller must be the first entry of the primary member list; else nobody is allowed.
\<close>

definition authorize ::
  "config \<Rightarrow> bool \<Rightarrow> bool \<Rightarrow> string \<Rightarrow> struct_group \<Rightarrow> struct_sgrp \<Rightarrow> bool" where
  "authorize cfg is_root shadow caller gr sg =
     (if is_root then True
      else if shadow then caller \<in> set (sg_adm sg)
      else if FIRST_MEMBER_IS_ADMIN cfg then take 1 (gr_mem gr) = [caller]
      else False)"

section \<open>Example inputs\<close>

text \<open>
  The usual definition of the macro:
  \<^verbatim>\<open>strncpy (A, B, sizeof (A) - 1), A[sizeof (A) - 1] = '\0'\<close>.
\<close>

definition strfcpy :: "nat \<Rightarrow> string \<Rightarrow> char list" where
  "strfcpy n s = take (n - 1) (c_str s @ replicate (n - 1) NUL) @ [NUL]"

text \<open>Joining tokens with commas, as a user list is written on the command line.\<close>

fun join_commas :: "string list \<Rightarrow> string" where
  "join_commas [] = []"
| "join_commas [t] = t"
| "join_commas (t # ts) = t @ CHR '','' # join_commas ts"

text \<open>The names looked up in the identity store during a run, in order.\<close>

fun lookups :: "event list \<Rightarrow> string list" where
  "lookups [] = []"
| "lookups (Getpwnam n r # es) = n # lookups es"
| "lookups (e # es) = lookups es"

text \<open>The number of times the first password prompt was shown.\<close>

fun is_first_prompt :: "event \<Rightarrow> bool" where
  "is_first_prompt (Getpass New_password r) = True"
| "is_first_prompt e = False"

definition first_prompts :: "event list \<Rightarrow> nat" where
  "first_prompts tr = length (filter is_first_prompt tr)"

text \<open>The records written back to the stores during a run.\<close>

fun is_update :: "event \<Rightarrow> bool" where
  "is_update (Gr_update gr r) = True"
| "is_update (Sgr_update sg r) = True"
| "is_update e = False"

definition all_zero :: "char list \<Rightarrow> bool" where
  "all_zero buf = list_all (\<lambda>c. c = NUL) buf"

text \<open>
  The two lines typed at the \<open>n\<close>-th and the following call of \<^verbatim>\<open>getpass\<close> are a
  failed confirmation: both are read, and the second is not the first as copied into
  \<open>pass\<close>.
\<close>

definition mismatched_entry :: "config \<Rightarrow> world \<Rightarrow> nat \<Rightarrow> bool" where
  "mismatched_entry cfg w n =
     (case getpass w n of
        None \<Rightarrow> False
      | Some a \<Rightarrow>
          (case getpass w (Suc n) of
             None \<Rightarrow> False
           | Some b \<Rightarrow> c_str (STRFCPY cfg (BUFSIZ cfg) (c_str a)) \<noteq> c_str b))"

definition ex_cfg :: config where
  "ex_cfg = \<lparr>SHADOWGRP = True, FIRST_MEMBER_IS_ADMIN = False, E_SUCCESS = 0, E_USAGE = 2,
             BUFSIZ = 256, SHADOW_PASSWD_STRING = ''x'', STRFCPY = strfcpy\<rparr>"

definition ex_cfg_legacy :: config where
  "ex_cfg_legacy = ex_cfg\<lparr>SHADOWGRP := False, FIRST_MEMBER_IS_ADMIN := True\<rparr>"

definition ex_gr :: struct_group where
  "ex_gr = \<lparr>gr_name = ''eng'', gr_passwd = ''x'', gr_gid = 100,
            gr_mem = [''alice'', ''bob'']\<rparr>"

definition ex_sg :: struct_sgrp where
  "ex_sg = \<lparr>sg_name = ''eng'', sg_passwd = ''!'', sg_adm = [''alice''],
            sg_mem = [''alice'', ''bob'']\<rparr>"

text \<open>The stack garbage \<^verbatim>\<open>main\<close> finds in its two locals.\<close>

definition ex_gr0 :: struct_group where
  "ex_gr0 = \<lparr>gr_name = [], gr_passwd = [], gr_gid = 0, gr_mem = []\<rparr>"

definition ex_sg0 :: struct_sgrp where
  "ex_sg0 = \<lparr>sg_name = [], sg_passwd = [], sg_adm = [], sg_mem = []\<rparr>"

fun ex_split :: "string \<Rightarrow> string \<Rightarrow> string list" where
  "ex_split cur [] = [cur]"
| "ex_split cur (c # cs) =
     (if c = CHR '','' then cur # ex_split [] cs else ex_split (cur @ [c]) cs)"

text \<open>
  A host with a shadow store, one group \<open>eng\<close> with members alice and bob and admin
  alice, users alice, bob and carol, and stores that never fail. The caller is root.
\<close>

definition ex_world :: world where
  "ex_world =
     \<lparr>getuid = 0,
      getpwnam = (\<lambda>u. u \<in> set [''alice'', ''bob'', ''carol'']),
      get_my_pwent = Some ''root'',
      sgr_file_present = True,
      gr_locate = (\<lambda>g. if g = ''eng'' then Some ex_gr else None),
      sgr_locate = (\<lambda>g. if g = ''eng'' then Some ex_sg else None),
      gr_lock = True, sgr_lock = True, gr_unlock = True, sgr_unlock = True,
      gr_open = (\<lambda>m. True), sgr_open = (\<lambda>m. True),
      gr_close = (\<lambda>m. True), sgr_close = (\<lambda>m. True),
      gr_update = (\<lambda>gr. True), sgr_update = (\<lambda>sg. True),
      setuid0 = True,
      isatty = (\<lambda>fd. True),
      getpass = (\<lambda>n. Some ''secret''),
      pw_encrypt = (\<lambda>s. ''$1$'' @ s),
      comma_to_list = (\<lambda>s. if s = [] then [] else ex_split [] s)\<rparr>"

text \<open>The same host seen by bob, uid 1000.\<close>

definition ex_world_bob :: world where
  "ex_world_bob = ex_world\<lparr>getuid := 1000, get_my_pwent := Some ''bob''\<rparr>"

text \<open>A state as \<^verbatim>\<open>main\<close> has it after \<^verbatim>\<open>get_group\<close>, for a caller and a uid.\<close>

definition ex_loaded :: "string \<Rightarrow> nat \<Rightarrow> state" where
  "ex_loaded caller uid =
     (initial_state ex_cfg ex_gr ex_sg)
       \<lparr>is_shadowgrp := True, group_nm := Some ''eng'', myname := Some caller, bywho := uid\<rparr>"

text \<open>What a run leaves behind: its exit status and the events, in order.\<close>

definition exit_status :: "outcome \<Rightarrow> int option" where
  "exit_status out = (case out of Exit s st \<Rightarrow> Some s | Cont st \<Rightarrow> None
                        | Undefined_behaviour \<Rightarrow> None)"

definition outcome_trace :: "outcome \<Rightarrow> event list" where
  "outcome_trace out = (case out of Exit s st \<Rightarrow> trace st | Cont st \<Rightarrow> trace st
                          | Undefined_behaviour \<Rightarrow> [])"

text \<open>The same host with an empty shadow store.\<close>

definition ex_world_noshadow_record :: world where
  "ex_world_noshadow_record = ex_world\<lparr>sgr_locate := (\<lambda>g. None)\<rparr>"

text \<open>A state as \<^verbatim>\<open>main\<close> has it before \<^verbatim>\<open>get_group\<close>, for a group name.\<close>

definition ex_before_load :: "string \<Rightarrow> state" where
  "ex_before_load g =
     (initial_state ex_cfg ex_gr0 ex_sg0)
       \<lparr>is_shadowgrp := True, group_nm := Some g, myname := Some ''root''\<rparr>"

text \<open>\<^verbatim>\<open>gpasswd -r nosuch\<close> and \<^verbatim>\<open>gpasswd -r eng\<close>.\<close>

definition ex_args_r :: "string \<Rightarrow> cmdline" where
  "ex_args_r g = \<lparr>flags = [Flag_r], optind = 2, operands = [g]\<rparr>"

text \<open>The loaded state of \<^verbatim>\<open>gpasswd -d user eng\<close>, run by root.\<close>

definition ex_remove :: "string \<Rightarrow> state" where
  "ex_remove u = (ex_loaded ''root'' 0)\<lparr>dflg := True, user := Some u\<rparr>"

text \<open>A terminal at which every confirmation is mistyped.\<close>

definition ex_world_typo :: world where
  "ex_world_typo = ex_world\<lparr>getpass := (\<lambda>n. if even n then Some ''secret'' else Some ''secrte'')\<rparr>"

text \<open>An identity store with a user whose name has 31 characters.\<close>

definition ex_world_long :: world where
  "ex_world_long =
     ex_world\<lparr>getpwnam := (\<lambda>u. u \<in> set [''alice'', ''abcdefghijklmnopqrstuvwxyz01234''])\<rparr>"

text \<open>
  Between two states, neither record of the pair has changed and nothing was written
  back to a store.
\<close>

definition untouched :: "state \<Rightarrow> state \<Rightarrow> bool" where
  "untouched st st' = (grent st' = grent st \<and> sgent st' = sgent st
      \<and> filter is_update (trace st') = filter is_update (trace st))"

section \<open>Vocabulary for traces\<close>

text \<open>No lock flag is set: the state of every run before \<open>open_files\<close>.\<close>

definition unlocked :: "state \<Rightarrow> bool" where
  "unlocked st = (\<not> group_locked st \<and> \<not> gshadow_locked st)"

text \<open>
  \<open>extends P st st'\<close>: the trace of \<open>st'\<close> is the trace of \<open>st\<close> followed by events that
  all satisfy \<open>P\<close>.
\<close>

definition extends :: "(event \<Rightarrow> bool) \<Rightarrow> state \<Rightarrow> state \<Rightarrow> bool" where
  "extends P st st' =
     (take (length (trace st)) (trace st') = trace st
      \<and> list_all P (drop (length (trace st)) (trace st')))"

text \<open>Events that touch neither store: diagnostics and identity-store lookups.\<close>

fun user_event :: "event \<Rightarrow> bool" where
  "user_event (Stderr m) = True"
| "user_event (Getpwnam n r) = True"
| "user_event e = False"

text \<open>
  Events of the first half of a transaction: reading the record pair (read-only open,
  locate, close), talking to the user, and diagnostics. No lock or unlock call, no
  opening for writing, no update is among them.
\<close>

fun pre_event :: "event \<Rightarrow> bool" where
  "pre_event (Stderr m) = True"
| "pre_event (Stdout m) = True"
| "pre_event (Getpwnam n r) = True"
| "pre_event (Gr_open O_RDONLY r) = True"
| "pre_event (Sgr_open O_RDONLY r) = True"
| "pre_event (Gr_close r) = True"
| "pre_event (Sgr_close r) = True"
| "pre_event (Gr_locate g) = True"
| "pre_event (Sgr_locate g) = True"
| "pre_event (Isatty fd r) = True"
| "pre_event Save_tty = True"
| "pre_event Install_signal_handlers = True"
| "pre_event (Getpass p r) = True"
| "pre_event e = False"

text \<open>
  Events of the second half, from the label \<^verbatim>\<open>output\<close> on: locking, opening for
  writing, updating, closing, unlocking, and diagnostics. No read-only open, no locate,
  no prompt is among them.
\<close>

fun commit_event :: "event \<Rightarrow> bool" where
  "commit_event (Stderr m) = True"
| "commit_event (Gr_lock r) = True"
| "commit_event (Sgr_lock r) = True"
| "commit_event (Gr_unlock r) = True"
| "commit_event (Sgr_unlock r) = True"
| "commit_event (Gr_open O_RDWR r) = True"
| "commit_event (Sgr_open O_RDWR r) = True"
| "commit_event (Gr_close r) = True"
| "commit_event (Sgr_close r) = True"
| "commit_event (Gr_update gr r) = True"
| "commit_event (Sgr_update sg r) = True"
| "commit_event (Setuid0 r) = True"
| "commit_event Pwd_init = True"
| "commit_event Nscd_flush_cache = True"
| "commit_event e = False"

fun is_locate :: "event \<Rightarrow> bool" where
  "is_locate (Gr_locate g) = True"
| "is_locate e = False"

text \<open>Loading: opening a store read-only and locating a record in it.\<close>

fun is_load_event :: "event \<Rightarrow> bool" where
  "is_load_event (Gr_open O_RDONLY r) = True"
| "is_load_event (Sgr_open O_RDONLY r) = True"
| "is_load_event (Gr_locate g) = True"
| "is_load_event (Sgr_locate g) = True"
| "is_load_event e = False"

text \<open>
  The reading of the spec's step order: each loading event of the trace comes after a
  successful lock of the primary store. \<open>held\<close> tells whether that lock was taken
  earlier in the trace.
\<close>

fun loads_under_lock :: "bool \<Rightarrow> event list \<Rightarrow> bool" where
  "loads_under_lock held [] = True"
| "loads_under_lock held (e # es) =
     (if is_load_event e then held \<and> loads_under_lock held es
      else loads_under_lock (held \<or> e = Gr_lock True) es)"

text \<open>
  Modelled from the spec: the record store adapter (\<^verbatim>\<open>gr_lock\<close>, \<^verbatim>\<open>gr_unlock\<close> and
  their shadow twins) is not in gpasswd.c. The spec: a store's lock call acquires its
  exclusive lock or fails; its unlock call releases it, and a failure it reports is
  logged, not retried. \<open>locks_held h tr\<close> are the locks (primary, shadow) this process
  holds after the calls of \<open>tr\<close>, when it held \<open>h\<close> before.
\<close>

fun locks_held :: "bool \<times> bool \<Rightarrow> event list \<Rightarrow> bool \<times> bool" where
  "locks_held h [] = h"
| "locks_held (g, s) (Gr_lock ok # es) = locks_held (g \<or> ok, s) es"
| "locks_held (g, s) (Sgr_lock ok # es) = locks_held (g, s \<or> ok) es"
| "locks_held (g, s) (Gr_unlock r # es) = locks_held (False, s) es"
| "locks_held (g, s) (Sgr_unlock r # es) = locks_held (g, False) es"
| "locks_held h (e # es) = locks_held h es"

text \<open>The lock flags of the program say what the trace says.\<close>

definition flags_track_locks :: "config \<Rightarrow> state \<Rightarrow> bool" where
  "flags_track_locks cfg st =
     (locks_held (False, False) (trace st)
        = (group_locked st, SHADOWGRP cfg \<and> gshadow_locked st))"

text \<open>The flags \<^verbatim>\<open>-A\<close> and \<^verbatim>\<open>-M\<close>.\<close>

fun sets_a_list :: "getopt_result \<Rightarrow> bool" where
  "sets_a_list (Flag_A l) = True"
| "sets_a_list (Flag_M l) = True"
| "sets_a_list f = False"

text \<open>The first half of \<^verbatim>\<open>main\<close>, up to the label \<^verbatim>\<open>output\<close>.\<close>

definition load_and_operate :: "config \<Rightarrow> world \<Rightarrow> cmdline \<Rightarrow> state \<Rightarrow> outcome" where
  "load_and_operate cfg w args st0 =
     (let st1 = st0\<lparr>bywho := getuid w\<rparr>;
          st2 = (if SHADOWGRP cfg then st1\<lparr>is_shadowgrp := sgr_file_present w\<rparr> else st1)
      in seq (process_flags cfg w args st2)
           (\<lambda>st3.
              case get_my_pwent w of
                None \<Rightarrow> failure cfg w (emit (Stderr Who_are_you) st3)
              | Some name \<Rightarrow>
                  seq (get_group cfg w (st3\<lparr>myname := Some name\<rparr>))
                    (\<lambda>st4. seq (check_perms cfg w st4) (operation cfg w))))"

text \<open>The same host seen by alice, uid 1001, an admin and the first member of \<open>eng\<close>.\<close>

definition ex_world_alice :: world where
  "ex_world_alice = ex_world\<lparr>getuid := 1001, get_my_pwent := Some ''alice''\<rparr>"

text \<open>\<^verbatim>\<open>gpasswd -M list eng\<close>.\<close>

definition ex_args_M :: "string \<Rightarrow> cmdline" where
  "ex_args_M l = \<lparr>flags = [Flag_M l], optind = 3, operands = [''eng'']\<rparr>"

text \<open>
  What processing the flags may do to a state: it sets no lock flag, touches no store
  and neither record, and leaves the caller's uid and the shadow switch alone.
\<close>

definition flag_ok :: "state \<Rightarrow> state \<Rightarrow> bool" where
  "flag_ok st st' = (unlocked st' \<and> extends user_event st st'
      \<and> bywho st' = bywho st \<and> is_shadowgrp st' = is_shadowgrp st
      \<and> grent st' = grent st \<and> sgent st' = sgent st)"

text \<open>
  The loaded state of \<^verbatim>\<open>gpasswd -d ghost eng\<close> when the member list of \<open>eng\<close> names a
  user \<open>ghost\<close> that the identity store does not know.
\<close>

definition ex_remove_ghost :: state where
  "ex_remove_ghost = (ex_remove ''ghost'')\<lparr>grent := ex_gr\<lparr>gr_mem := [''alice'', ''ghost'']\<rparr>\<rparr>"

text \<open>
  What the first half of a transaction may do to a state: set no lock flag and add only
  events of the first half.
\<close>

definition pre_ok :: "state \<Rightarrow> state \<Rightarrow> bool" where
  "pre_ok st st' = (unlocked st' \<and> extends pre_event st st')"

text \<open>A relation between the state before and the state a function ends in.\<close>

definition out_ok :: "(state \<Rightarrow> state \<Rightarrow> bool) \<Rightarrow> state \<Rightarrow> outcome \<Rightarrow> bool" where
  "out_ok R st out = (case out of Exit s st' \<Rightarrow> R st st' | Cont st' \<Rightarrow> R st st'
                        | Undefined_behaviour \<Rightarrow> True)"

text \<open>
  The invariant of the second half: the lock flags say what is held, and the shadow flag
  is only set when a shadow store is in use.
\<close>

definition lock_inv :: "config \<Rightarrow> state \<Rightarrow> bool" where
  "lock_inv cfg st = (flags_track_locks cfg st
      \<and> (gshadow_locked st \<longrightarrow> SHADOWGRP cfg \<and> is_shadowgrp st))"

text \<open>
  A function keeps the invariant when it returns, and holds no lock when it exits; it
  never changes the shadow switch.
\<close>

definition lock_ok :: "config \<Rightarrow> state \<Rightarrow> outcome \<Rightarrow> bool" where
  "lock_ok cfg st out =
     (case out of
        Exit s st' \<Rightarrow> locks_held (False, False) (trace st') = (False, False)
      | Cont st' \<Rightarrow> lock_inv cfg st' \<and> is_shadowgrp st' = is_shadowgrp st
      | Undefined_behaviour \<Rightarrow> True)"

text \<open>The same host while another process holds the shadow lock, or the primary lock.\<close>

definition ex_world_shadow_busy :: world where
  "ex_world_shadow_busy = ex_world\<lparr>sgr_lock := False\<rparr>"

definition ex_world_group_busy :: world where
  "ex_world_group_busy = ex_world\<lparr>gr_lock := False\<rparr>"

text \<open>
  The option flags that are set have their argument: the pointers \<open>user\<close>, \<open>admins\<close>
  and \<open>members\<close> are not NULL where \<^verbatim>\<open>main\<close> reads them.
\<close>

definition args_set :: "state \<Rightarrow> bool" where
  "args_set st = ((aflg st \<or> dflg st \<longrightarrow> user st \<noteq> None)
      \<and> (Aflg st \<longrightarrow> admins st \<noteq> None) \<and> (Mflg st \<longrightarrow> members st \<noteq> None))"

text \<open>Between two states, the option flags and the name pointers are the same.\<close>

definition keeps_args :: "state \<Rightarrow> state \<Rightarrow> bool" where
  "keeps_args st st' = (aflg st' = aflg st \<and> Aflg st' = Aflg st \<and> dflg st' = dflg st
      \<and> Mflg st' = Mflg st \<and> rflg st' = rflg st \<and> Rflg st' = Rflg st
      \<and> user st' = user st \<and> members st' = members st \<and> admins st' = admins st
      \<and> group_nm st' = group_nm st \<and> myname st' = myname st)"

section \<open>The order of the commit step\<close>

text \<open>
  The state \<^verbatim>\<open>main\<close> hands to \<open>process_flags\<close>: the uid of the caller and the shadow
  switch are set (the \<open>st2\<close> of \<open>main_from\<close>).
\<close>

definition startup :: "config \<Rightarrow> world \<Rightarrow> state \<Rightarrow> state" where
  "startup cfg w st0 =
     (let st1 = st0\<lparr>bywho := getuid w\<rparr>
      in if SHADOWGRP cfg then st1\<lparr>is_shadowgrp := sgr_file_present w\<rparr> else st1)"

text \<open>
  How far the commit step has come: nothing locked yet, primary store locked, shadow
  store locked, primary store open for writing, shadow store open for writing, primary
  record written, shadow record written, primary store closed, shadow store closed.
\<close>

datatype commit_stage =
    Start
  | G_locked
  | S_locked
  | G_open
  | S_open
  | G_written
  | S_written
  | G_closed
  | S_closed

text \<open>The diagnostics of the commit step.\<close>

fun commit_message :: "message \<Rightarrow> bool" where
  "commit_message Cannot_change_id = True"
| "commit_message Cannot_lock_group = True"
| "commit_message Cannot_lock_gshadow = True"
| "commit_message Cannot_open_group = True"
| "commit_message Cannot_open_gshadow = True"
| "commit_message Cannot_rewrite_group = True"
| "commit_message Cannot_rewrite_gshadow = True"
| "commit_message Cannot_unlock_group = True"
| "commit_message Cannot_unlock_gshadow = True"
| "commit_message (Cannot_update_group g) = True"
| "commit_message (Cannot_update_gshadow g) = True"
| "commit_message m = False"

text \<open>
  The order the amended step list asks of the commit step, as an automaton over its
  events; \<open>sh\<close> says whether a shadow store is in use, and the second component of the
  state whether an unlock was already called. Becoming root and \<^verbatim>\<open>pwd_init\<close> come
  before the first lock call. The primary lock is asked for first, then the shadow
  lock; only with the lock or locks held is the primary store opened for writing, then
  the shadow store; only with the store or stores open is the primary record written,
  then the shadow record; only then is the primary store closed, then the shadow
  store. An unlock is only called on a lock that was acquired, and after the first
  unlock call nothing but unlock calls, diagnostics and, after a full commit, the
  cache flush follows. A call that fails leaves the stage where it was. No loading
  event, no prompt, no lookup and no diagnostic of the first half (such as
  "Permission denied") is accepted at all.
\<close>

fun commit_step :: "bool \<Rightarrow> commit_stage \<times> bool \<Rightarrow> event \<Rightarrow> (commit_stage \<times> bool) option" where
  "commit_step sh (stg, rel) (Stderr m) = (if commit_message m then Some (stg, rel) else None)"
| "commit_step sh (stg, rel) (Setuid0 r) =
     (if stg = Start \<and> \<not> rel then Some (stg, rel) else None)"
| "commit_step sh (stg, rel) Pwd_init =
     (if stg = Start \<and> \<not> rel then Some (stg, rel) else None)"
| "commit_step sh (stg, rel) (Gr_lock ok) =
     (if stg = Start \<and> \<not> rel then Some (if ok then G_locked else stg, rel) else None)"
| "commit_step sh (stg, rel) (Sgr_lock ok) =
     (if sh \<and> stg = G_locked \<and> \<not> rel then Some (if ok then S_locked else stg, rel) else None)"
| "commit_step sh (stg, rel) (Gr_open m ok) =
     (if m = O_RDWR \<and> stg = (if sh then S_locked else G_locked) \<and> \<not> rel
      then Some (if ok then G_open else stg, rel) else None)"
| "commit_step sh (stg, rel) (Sgr_open m ok) =
     (if m = O_RDWR \<and> sh \<and> stg = G_open \<and> \<not> rel
      then Some (if ok then S_open else stg, rel) else None)"
| "commit_step sh (stg, rel) (Gr_update gr ok) =
     (if stg = (if sh then S_open else G_open) \<and> \<not> rel
      then Some (if ok then G_written else stg, rel) else None)"
| "commit_step sh (stg, rel) (Sgr_update sg ok) =
     (if sh \<and> stg = G_written \<and> \<not> rel
      then Some (if ok then S_written else stg, rel) else None)"
| "commit_step sh (stg, rel) (Gr_close ok) =
     (if stg = (if sh then S_written else G_written) \<and> \<not> rel
      then Some (if ok then G_closed else stg, rel) else None)"
| "commit_step sh (stg, rel) (Sgr_close ok) =
     (if sh \<and> stg = G_closed \<and> \<not> rel
      then Some (if ok then S_closed else stg, rel) else None)"
| "commit_step sh (stg, rel) (Gr_unlock r) =
     (if stg \<noteq> Start then Some (stg, True) else None)"
| "commit_step sh (stg, rel) (Sgr_unlock r) =
     (if sh \<and> stg \<noteq> Start \<and> stg \<noteq> G_locked then Some (stg, True) else None)"
| "commit_step sh (stg, rel) Nscd_flush_cache =
     (if rel \<and> stg = (if sh then S_closed else G_closed) then Some (stg, rel) else None)"
| "commit_step sh (stg, rel) e = None"

fun commit_run ::
  "bool \<Rightarrow> (commit_stage \<times> bool) option \<Rightarrow> event list \<Rightarrow> (commit_stage \<times> bool) option" where
  "commit_run sh s [] = s"
| "commit_run sh None (e # es) = None"
| "commit_run sh (Some s) (e # es) = commit_run sh (commit_step sh s e) es"

definition commit_order :: "bool \<Rightarrow> event list \<Rightarrow> bool" where
  "commit_order sh post = (commit_run sh (Some (Start, False)) post \<noteq> None)"

text \<open>The events a state has seen since an earlier state, and the stage they lead to.\<close>

definition prefix_of :: "state \<Rightarrow> state \<Rightarrow> bool" where
  "prefix_of st0 st = (take (length (trace st0)) (trace st) = trace st0)"

definition new_events :: "state \<Rightarrow> state \<Rightarrow> event list" where
  "new_events st0 st = drop (length (trace st0)) (trace st)"

definition stage_of :: "bool \<Rightarrow> state \<Rightarrow> state \<Rightarrow> (commit_stage \<times> bool) option" where
  "stage_of sh st0 st = commit_run sh (Some (Start, False)) (new_events st0 st)"

text \<open>Opening a store for writing, writing a record to it, and closing it.\<close>

fun is_write_event :: "event \<Rightarrow> bool" where
  "is_write_event (Gr_open O_RDWR r) = True"
| "is_write_event (Sgr_open O_RDWR r) = True"
| "is_write_event (Gr_update gr r) = True"
| "is_write_event (Sgr_update sg r) = True"
| "is_write_event (Gr_close r) = True"
| "is_write_event (Sgr_close r) = True"
| "is_write_event e = False"

fun is_unlock_event :: "event \<Rightarrow> bool" where
  "is_unlock_event (Gr_unlock r) = True"
| "is_unlock_event (Sgr_unlock r) = True"
| "is_unlock_event e = False"

section \<open>Shared facts\<close>

declare valid_user_loop.simps [simp del]

declare change_passwd_loop.simps [simp del]

lemma fail_exit_Exit: "\<exists>st'. fail_exit cfg w s st = Exit s st'"
  by (simp add: fail_exit_def Let_def)

lemma failure_denied:
  "\<exists>st'. failure cfg w st = Exit 1 st' \<and> Stderr Permission_denied \<in> set (trace st')
      \<and> grent st' = grent st \<and> sgent st' = sgent st"
  by (simp add: failure_def fail_exit_def Let_def emit_def)

section \<open>Trace extension\<close>

lemma extends_iff:
  "extends P st st' \<longleftrightarrow> (\<exists>ext. trace st' = trace st @ ext \<and> list_all P ext)"
proof
  assume "extends P st st'"
  then have "trace st' = trace st @ drop (length (trace st)) (trace st')"
    and "list_all P (drop (length (trace st)) (trace st'))"
    by (simp_all add: extends_def) (metis append_take_drop_id)
  then show "\<exists>ext. trace st' = trace st @ ext \<and> list_all P ext" by blast
next
  assume "\<exists>ext. trace st' = trace st @ ext \<and> list_all P ext"
  then show "extends P st st'" by (auto simp: extends_def)
qed

lemma extends_refl: "trace st' = trace st \<Longrightarrow> extends P st st'"
  by (simp add: extends_def)

lemma extends_trans: "extends P a b \<Longrightarrow> extends P b c \<Longrightarrow> extends P a c"
  by (auto simp: extends_iff)

lemma extends_mono: "extends P a b \<Longrightarrow> (\<And>e. P e \<Longrightarrow> Q e) \<Longrightarrow> extends Q a b"
  by (auto simp: extends_iff list_all_iff)

lemma extends_emit: "extends P a b \<Longrightarrow> P e \<Longrightarrow> extends P a (emit e b)"
  by (auto simp: extends_iff emit_def)

lemma fail_exit_unlocked: "unlocked st \<Longrightarrow> fail_exit cfg w s st = Exit s st"
  by (simp add: fail_exit_def unlocked_def)

lemma failure_unlocked:
  "unlocked st \<Longrightarrow> failure cfg w st = Exit 1 (emit (Stderr Permission_denied) st)"
  by (simp add: failure_def fail_exit_def unlocked_def emit_def)

lemma valid_user_loop_unfold:
  assumes "start \<noteq> []"
  shows "\<exists>rest name. length rest < length start
           \<and> valid_user_loop w start valid st =
               valid_user_loop w rest (valid \<and> getpwnam w name)
                 (if getpwnam w name
                  then emit (Getpwnam name True) st
                  else emit (Stderr (User_does_not_exist name))
                         (emit (Getpwnam name False) st))"
proof (cases "strchr_comma start")
  case None
  show ?thesis
    apply (rule exI [of _ "[]"])
    apply (rule exI [of _ "take (if 31 < length start then 31 else length start) start"])
    apply (subst valid_user_loop.simps)
    apply (simp add: Let_def assms None)
    done
next
  case (Some i)
  show ?thesis
    apply (rule exI [of _ "drop (Suc i) start"])
    apply (rule exI [of _ "take (if 31 < i then 31 else i) start"])
    apply (subst valid_user_loop.simps)
    apply (simp add: Let_def assms Some)
    done
qed

lemma valid_user_loop_frame:
  "\<exists>ext. snd (valid_user_loop w start valid st) = st\<lparr>trace := trace st @ ext\<rparr>
          \<and> list_all user_event ext"
proof (induction "length start" arbitrary: start valid st rule: less_induct)
  case less
  show ?case
  proof (cases "start = []")
    case True
    then show ?thesis
      by (subst valid_user_loop.simps) (auto intro!: exI [of _ "[]"])
  next
    case False
    from valid_user_loop_unfold [OF False, of w valid st] obtain rest name where
      l: "length rest < length start"
      and u: "valid_user_loop w start valid st =
               valid_user_loop w rest (valid \<and> getpwnam w name)
                 (if getpwnam w name
                  then emit (Getpwnam name True) st
                  else emit (Stderr (User_does_not_exist name))
                         (emit (Getpwnam name False) st))"
      by blast
    define st1 where "st1 = (if getpwnam w name
                  then emit (Getpwnam name True) st
                  else emit (Stderr (User_does_not_exist name))
                         (emit (Getpwnam name False) st))"
    from less [OF l, of "valid \<and> getpwnam w name" st1] obtain ext where
      e: "snd (valid_user_loop w rest (valid \<and> getpwnam w name) st1)
            = st1\<lparr>trace := trace st1 @ ext\<rparr>" and p: "list_all user_event ext"
      by blast
    obtain ext1 where e1: "st1 = st\<lparr>trace := trace st @ ext1\<rparr>" "list_all user_event ext1"
      by (cases "getpwnam w name") (auto simp: st1_def emit_def)
    show ?thesis
      unfolding u st1_def [symmetric] e
      using e1 p by (intro exI [of _ "ext1 @ ext"]) simp
  qed
qed

lemma is_valid_user_list_frame:
  "\<exists>valid ext. is_valid_user_list w users st = (valid, st\<lparr>trace := trace st @ ext\<rparr>)
          \<and> list_all user_event ext"
  using valid_user_loop_frame [of w users True st]
  by (cases "valid_user_loop w users True st") (auto simp: is_valid_user_list_def)



section \<open>Authorization policy\<close>

text \<open>
  C1. For every caller name and loaded record pair, \<open>check_perms\<close> returns exactly when
  the policy of the spec allows: root always; otherwise, with a shadow store in use,
  exactly the names on the shadow record's admin list; otherwise, under the legacy flag,
  exactly the first entry of the primary member list, and nobody without the flag. In
  every other case it leaves through \<open>failure\<close>, which exits with status 1 after
  "Permission denied".
\<close>

theorem check_perms_policy:
  assumes "myname st = Some caller"
  shows "check_perms cfg w st =
           (if authorize cfg (amroot st) (shadow_in_use cfg st) caller (grent st) (sgent st)
            then Cont st else failure cfg w st)
         \<and> (\<exists>st'. failure cfg w st = Exit 1 st' \<and> Stderr Permission_denied \<in> set (trace st'))"
proof
  show "check_perms cfg w st =
           (if authorize cfg (amroot st) (shadow_in_use cfg st) caller (grent st) (sgent st)
            then Cont st else failure cfg w st)"
    using assms
    by (auto simp: check_perms_def authorize_def shadow_in_use_def is_on_list_def
             split: list.splits)
next
  from failure_denied [of cfg w st]
  show "\<exists>st'. failure cfg w st = Exit 1 st' \<and> Stderr Permission_denied \<in> set (trace st')"
    by blast
qed

theorem check_perms_policy_witness:
  "check_perms ex_cfg ex_world (ex_loaded ''alice'' 1000) = Cont (ex_loaded ''alice'' 1000)
   \<and> check_perms ex_cfg ex_world (ex_loaded ''bob'' 1000)
       = failure ex_cfg ex_world (ex_loaded ''bob'' 1000)
   \<and> check_perms ex_cfg_legacy ex_world (ex_loaded ''alice'' 1000)
       = Cont (ex_loaded ''alice'' 1000)
   \<and> check_perms ex_cfg_legacy ex_world (ex_loaded ''bob'' 1000)
       = failure ex_cfg_legacy ex_world (ex_loaded ''bob'' 1000)
   \<and> check_perms ex_cfg ex_world (ex_loaded ''root'' 0) = Cont (ex_loaded ''root'' 0)"
  using check_perms_policy [of "ex_loaded ''alice'' 1000" "''alice''" ex_cfg ex_world]
        check_perms_policy [of "ex_loaded ''bob'' 1000" "''bob''" ex_cfg ex_world]
        check_perms_policy [of "ex_loaded ''alice'' 1000" "''alice''" ex_cfg_legacy ex_world]
        check_perms_policy [of "ex_loaded ''bob'' 1000" "''bob''" ex_cfg_legacy ex_world]
        check_perms_policy [of "ex_loaded ''root'' 0" "''root''" ex_cfg ex_world]
  by (simp add: ex_loaded_def initial_state_def authorize_def amroot_def shadow_in_use_def
                ex_cfg_def ex_cfg_legacy_def ex_gr_def ex_sg_def)

lemma filter_absent: "u \<notin> set xs \<Longrightarrow> filter (\<lambda>m. m \<noteq> u) xs = xs"
  by (induction xs) auto

section \<open>Loading the record pair\<close>

text \<open>
  C6. When shadow groups are in use and the stores open and close without error, a group
  found in the primary store but not in the shadow store does not make \<open>get_group\<close> fail:
  it returns with a shadow record whose name is the group name, whose password is the
  primary record's password, whose member list is the primary member list, and whose
  admin list is the first primary member (if there is one) under
  \<open>FIRST_MEMBER_IS_ADMIN\<close> and empty otherwise; the primary record's password becomes
  the shadow marker.
\<close>

theorem get_group_synthesizes_sgrp:
  assumes "SHADOWGRP cfg" and "is_shadowgrp st" and "group_nm st = Some g"
    and "gr_open w O_RDONLY" and "gr_locate w g = Some gr" and "gr_close w O_RDONLY"
    and "sgr_open w O_RDONLY" and "sgr_locate w g = None" and "sgr_close w O_RDONLY"
  shows "\<exists>st'. get_group cfg w st = Cont st'
           \<and> sgent st' = \<lparr>sg_name = g, sg_passwd = gr_passwd gr,
                           sg_adm = (if FIRST_MEMBER_IS_ADMIN cfg then take 1 (gr_mem gr) else []),
                           sg_mem = gr_mem gr\<rparr>
           \<and> grent st' = gr\<lparr>gr_passwd := SHADOW_PASSWD_STRING cfg\<rparr>"
  using assms
  by (auto simp: get_group_def synthesize_sgrp_def emit_def dup_list_def Let_def
           split: list.splits)

theorem get_group_synthesizes_sgrp_witness:
  "(\<exists>st'. get_group ex_cfg ex_world_noshadow_record (ex_before_load ''eng'') = Cont st'
      \<and> sgent st' = \<lparr>sg_name = ''eng'', sg_passwd = ''x'', sg_adm = [],
                      sg_mem = [''alice'', ''bob'']\<rparr>
      \<and> grent st' = ex_gr\<lparr>gr_passwd := ''x''\<rparr>)
   \<and> (\<exists>st'. get_group (ex_cfg\<lparr>FIRST_MEMBER_IS_ADMIN := True\<rparr>) ex_world_noshadow_record
               (ex_before_load ''eng'') = Cont st'
      \<and> sgent st' = \<lparr>sg_name = ''eng'', sg_passwd = ''x'', sg_adm = [''alice''],
                      sg_mem = [''alice'', ''bob'']\<rparr>
      \<and> grent st' = ex_gr\<lparr>gr_passwd := ''x''\<rparr>)"
  using get_group_synthesizes_sgrp [of ex_cfg "ex_before_load ''eng''" "''eng''"
          ex_world_noshadow_record ex_gr]
        get_group_synthesizes_sgrp [of "ex_cfg\<lparr>FIRST_MEMBER_IS_ADMIN := True\<rparr>"
          "ex_before_load ''eng''" "''eng''" ex_world_noshadow_record ex_gr]
  by (simp add: ex_cfg_def ex_world_noshadow_record_def ex_world_def ex_before_load_def
                initial_state_def ex_gr_def)

text \<open>
  C7, as the code has it. When the store opens and the named group is absent from the
  primary store, \<open>get_group\<close> reports that the group does not exist and then leaves
  through \<open>failure\<close>, the permission-denied routine: "Permission denied" is printed as
  well and the exit status is 1, the status of every permission denial. Nothing of the
  record pair is touched.
\<close>

theorem get_group_absent_group:
  assumes "gr_open w O_RDONLY" and "group_nm st = Some g" and "gr_locate w g = None"
  shows "get_group cfg w st =
           failure cfg w (emit (Stderr (Group_does_not_exist g))
                            (emit (Gr_locate g) (emit (Gr_open O_RDONLY True) st)))
         \<and> (\<exists>st'. get_group cfg w st = Exit 1 st'
                \<and> Stderr (Group_does_not_exist g) \<in> set (trace st')
                \<and> Stderr Permission_denied \<in> set (trace st')
                \<and> grent st' = grent st \<and> sgent st' = sgent st)"
  using assms
  by (simp add: get_group_def failure_def fail_exit_def emit_def Let_def)

theorem get_group_absent_group_witness:
  "get_group ex_cfg ex_world (ex_before_load ''nosuch'') =
     failure ex_cfg ex_world
       (emit (Stderr (Group_does_not_exist ''nosuch''))
          (emit (Gr_locate ''nosuch'') (emit (Gr_open O_RDONLY True) (ex_before_load ''nosuch''))))
   \<and> exit_status (get_group ex_cfg ex_world (ex_before_load ''nosuch'')) = Some 1"
proof -
  have "gr_open ex_world O_RDONLY" and "group_nm (ex_before_load ''nosuch'') = Some ''nosuch''"
    and "gr_locate ex_world ''nosuch'' = None"
    by (simp_all add: ex_world_def ex_before_load_def initial_state_def)
  from get_group_absent_group [OF this, of ex_cfg] obtain st' where
    a: "get_group ex_cfg ex_world (ex_before_load ''nosuch'') =
          failure ex_cfg ex_world
            (emit (Stderr (Group_does_not_exist ''nosuch''))
               (emit (Gr_locate ''nosuch'')
                  (emit (Gr_open O_RDONLY True) (ex_before_load ''nosuch''))))"
    and b: "get_group ex_cfg ex_world (ex_before_load ''nosuch'') = Exit 1 st'"
    by blast
  from b have "exit_status (get_group ex_cfg ex_world (ex_before_load ''nosuch'')) = Some 1"
    by (simp add: exit_status_def)
  with a show ?thesis by blast
qed

text \<open>
  The run \<^verbatim>\<open>gpasswd -r nosuch\<close> by root, on a host without such a group, prints that
  the group does not exist and then "Permission denied", and ends with status 1:
  exactly the status and the last diagnostic of the run \<^verbatim>\<open>gpasswd -r eng\<close> by bob, who
  is not an admin of \<open>eng\<close>. The outcome for an unknown group is not set apart from a
  permission denial.
\<close>

theorem absent_group_is_permission_denied_counterexample:
  "exit_status (main ex_cfg ex_world (ex_args_r ''nosuch'') ex_gr0 ex_sg0) = Some 1
   \<and> outcome_trace (main ex_cfg ex_world (ex_args_r ''nosuch'') ex_gr0 ex_sg0) =
       [Gr_open O_RDONLY True, Gr_locate ''nosuch'',
        Stderr (Group_does_not_exist ''nosuch''), Stderr Permission_denied]
   \<and> exit_status (main ex_cfg ex_world_bob (ex_args_r ''eng'') ex_gr0 ex_sg0) = Some 1
   \<and> last (outcome_trace (main ex_cfg ex_world_bob (ex_args_r ''eng'') ex_gr0 ex_sg0))
       = Stderr Permission_denied"
  by (simp add: main_def main_from_def process_flags_def process_flag_def check_flags_def
                argc_def get_group_def check_perms_def failure_def fail_exit_def seq_def
                emit_def is_on_list_def amroot_def dup_list_def initial_state_def
                ex_cfg_def ex_world_def ex_world_bob_def ex_args_r_def ex_gr_def ex_sg_def
                exit_status_def outcome_trace_def Let_def)

section \<open>Removing a member\<close>

text \<open>
  C8. The remove operation, for a user \<open>u\<close>: if \<open>u\<close> is on neither member list (the
  shadow list counts when a shadow store is in use), the operation prints that \<open>u\<close> is
  not a member, exits with status 1 and leaves both records as they were. Otherwise it
  returns, and every occurrence of \<open>u\<close> is gone from the primary member list and, when a
  shadow store is in use, from the shadow member list; the other names stay, in order.
\<close>

theorem operation_remove:
  assumes "\<not> rflg st" and "\<not> Rflg st" and "\<not> aflg st" and "dflg st"
    and "user st = Some u" and "group_nm st = Some g"
  shows "if u \<notin> set (gr_mem (grent st)) \<and> (shadow_in_use cfg st \<longrightarrow> u \<notin> set (sg_mem (sgent st)))
         then (\<exists>st'. operation cfg w st = Exit 1 st'
                 \<and> Stderr (Not_a_member u g) \<in> set (trace st')
                 \<and> grent st' = grent st \<and> sgent st' = sgent st)
         else (\<exists>st'. operation cfg w st = Cont st'
                 \<and> grent st' = (grent st)\<lparr>gr_mem := filter (\<lambda>m. m \<noteq> u) (gr_mem (grent st))\<rparr>
                 \<and> sgent st' = (if shadow_in_use cfg st
                                then (sgent st)\<lparr>sg_mem := filter (\<lambda>m. m \<noteq> u) (sg_mem (sgent st))\<rparr>
                                else sgent st)
                 \<and> u \<notin> set (gr_mem (grent st'))
                 \<and> (shadow_in_use cfg st \<longrightarrow> u \<notin> set (sg_mem (sgent st'))))"
  using assms
  by (auto simp: operation_def shadow_in_use_def is_on_list_def del_list_def emit_def
                 fail_exit_def Let_def filter_absent)

theorem operation_remove_witness:
  "(\<exists>st'. operation ex_cfg ex_world (ex_remove ''carol'') = Exit 1 st'
      \<and> Stderr (Not_a_member ''carol'' ''eng'') \<in> set (trace st')
      \<and> grent st' = ex_gr \<and> sgent st' = ex_sg)
   \<and> (\<exists>st'. operation ex_cfg ex_world (ex_remove ''bob'') = Cont st'
      \<and> gr_mem (grent st') = [''alice''] \<and> sg_mem (sgent st') = [''alice''])"
  using operation_remove [of "ex_remove ''carol''" "''carol''" "''eng''" ex_cfg ex_world]
        operation_remove [of "ex_remove ''bob''" "''bob''" "''eng''" ex_cfg ex_world]
  by (auto simp: ex_remove_def ex_loaded_def initial_state_def shadow_in_use_def
                 ex_cfg_def ex_gr_def ex_sg_def)

section \<open>Validation of user lists\<close>

lemma lookups_append: "lookups (xs @ ys) = lookups xs @ lookups ys"
  by (induction xs rule: lookups.induct) auto

lemma strchr_comma_found:
  "CHR '','' \<notin> set t \<Longrightarrow> strchr_comma (t @ CHR '','' # r) = Some (length t)"
  by (induction t) (auto simp: strchr_comma_def)

lemma strchr_comma_none: "CHR '','' \<notin> set t \<Longrightarrow> strchr_comma t = None"
  by (simp add: strchr_comma_def)

lemma valid_user_loop_last:
  assumes "CHR '','' \<notin> set t" and "t \<noteq> []"
  shows "valid_user_loop w t valid st =
           (valid \<and> getpwnam w (take 31 t),
            if getpwnam w (take 31 t)
            then emit (Getpwnam (take 31 t) True) st
            else emit (Stderr (User_does_not_exist (take 31 t)))
                   (emit (Getpwnam (take 31 t) False) st))"
  using assms
  apply (subst valid_user_loop.simps)
  apply (simp add: strchr_comma_none Let_def)
  apply (subst valid_user_loop.simps, simp)+
  done

lemma valid_user_loop_step:
  assumes "CHR '','' \<notin> set t"
  shows "valid_user_loop w (t @ CHR '','' # r) valid st =
           valid_user_loop w r (valid \<and> getpwnam w (take 31 t))
             (if getpwnam w (take 31 t)
              then emit (Getpwnam (take 31 t) True) st
              else emit (Stderr (User_does_not_exist (take 31 t)))
                     (emit (Getpwnam (take 31 t) False) st))"
  using assms
  apply (subst valid_user_loop.simps)
  apply (simp add: strchr_comma_found Let_def)
  done

lemma valid_user_loop_tokens:
  assumes "\<forall>t\<in>set ts. CHR '','' \<notin> set t" and "ts \<noteq> [] \<longrightarrow> last ts \<noteq> []"
  shows "fst (valid_user_loop w (join_commas ts) valid st)
           = (valid \<and> list_all (\<lambda>t. getpwnam w (take 31 t)) ts)
         \<and> lookups (trace (snd (valid_user_loop w (join_commas ts) valid st)))
           = lookups (trace st) @ map (take 31) ts"
  using assms
proof (induction ts arbitrary: valid st rule: join_commas.induct)
  case 1
  then show ?case by (simp add: valid_user_loop.simps)
next
  case (2 t)
  then show ?case
    by (simp add: valid_user_loop_last emit_def lookups_append)
next
  case (3 t v va)
  then show ?case
    by (simp add: valid_user_loop_step emit_def lookups_append)
qed

text \<open>
  C9. For every list of comma-free tokens (the last one not empty), written with commas
  between them: the names \<open>is_valid_user_list\<close> looks up in the identity store are the
  tokens cut to their first 31 characters, in order, and the list is valid exactly when
  each of these cut names exists. The length of a token never decides the verdict.
\<close>

theorem is_valid_user_list_truncates:
  assumes "\<forall>t\<in>set ts. CHR '','' \<notin> set t" and "ts \<noteq> [] \<longrightarrow> last ts \<noteq> []"
  shows "fst (is_valid_user_list w (join_commas ts) st)
           = list_all (\<lambda>t. getpwnam w (take 31 t)) ts
         \<and> lookups (trace (snd (is_valid_user_list w (join_commas ts) st)))
           = lookups (trace st) @ map (take 31) ts"
  using valid_user_loop_tokens [OF assms, of w True st]
  by (simp add: is_valid_user_list_def)

theorem is_valid_user_list_truncates_witness:
  "fst (is_valid_user_list ex_world_long ''alice,abcdefghijklmnopqrstuvwxyz0123456789''
          (ex_before_load ''eng''))
   \<and> lookups (trace (snd (is_valid_user_list ex_world_long
                ''alice,abcdefghijklmnopqrstuvwxyz0123456789'' (ex_before_load ''eng''))))
     = [''alice'', ''abcdefghijklmnopqrstuvwxyz01234'']"
  using is_valid_user_list_truncates
          [of "[''alice'', ''abcdefghijklmnopqrstuvwxyz0123456789'']" ex_world_long
              "ex_before_load ''eng''"]
  by (simp add: ex_world_long_def ex_before_load_def initial_state_def)

section \<open>The password prompt\<close>

lemma untouched_refl: "untouched st st"
  by (simp add: untouched_def)

lemma untouched_trans: "untouched a b \<Longrightarrow> untouched b c \<Longrightarrow> untouched a c"
  by (simp add: untouched_def)

lemma fail_exit_untouched:
  "\<exists>st'. fail_exit cfg w s st = Exit s st' \<and> untouched st st'
      \<and> first_prompts (trace st') = first_prompts (trace st)
      \<and> (\<forall>e. e \<in> set (trace st) \<longrightarrow> e \<in> set (trace st'))"
  by (simp add: fail_exit_def Let_def emit_def untouched_def first_prompts_def)

lemma c_str_idem: "c_str (c_str s) = c_str s"
  by (simp add: c_str_def takeWhile_idem)

lemma all_zero_strzero_c_str: "all_zero (strzero (c_str s))"
  by (simp add: strzero_def memzero_def c_str_idem all_zero_def list_all_iff)

lemma all_zero_memzero: "all_zero (memzero buf (length buf))"
  by (simp add: memzero_def all_zero_def list_all_iff)

lemma call_getpass_facts:
  "call_getpass w p st = (cp, st') \<Longrightarrow>
     cp = map_option c_str (getpass w (getpass_calls st))
     \<and> getpass_calls st' = Suc (getpass_calls st)
     \<and> retries st' = retries st \<and> untouched st st'
     \<and> pass st' = pass st
     \<and> trace st' = trace st @ [Getpass p cp]
     \<and> (\<forall>s. cp = Some s \<longrightarrow> getpass_buf st' = s \<and> all_zero (strzero (getpass_buf st')))"
  by (auto simp: call_getpass_def Let_def emit_def untouched_def all_zero_strzero_c_str
           split: option.splits)


lemma passwd_attempt_cases:
  "case passwd_attempt cfg w st of
     Aborted out \<Rightarrow> (\<exists>st'. out = Exit 1 st' \<and> untouched st st'
                        \<and> first_prompts (trace st') = Suc (first_prompts (trace st)))
   | Matched st' \<Rightarrow> untouched st st' \<and> retries st' = retries st
                        \<and> first_prompts (trace st') = Suc (first_prompts (trace st))
   | Mismatched st' \<Rightarrow> untouched st st' \<and> retries st' = retries st
                        \<and> first_prompts (trace st') = Suc (first_prompts (trace st))
                        \<and> all_zero (pass st') \<and> all_zero (getpass_buf st')"
proof -
  obtain cp st1 where c1: "call_getpass w New_password st = (cp, st1)"
    by (cases "call_getpass w New_password st")
  note f1 = call_getpass_facts [OF c1]
  show ?thesis
  proof (cases cp)
    case None
    with c1 f1 fail_exit_untouched [of cfg w 1 st1] show ?thesis
      by (auto simp: passwd_attempt_def first_prompts_def untouched_def)
  next
    case (Some a)
    define st3 where "st3 = st1\<lparr>pass := STRFCPY cfg (BUFSIZ cfg) a,
                                 getpass_buf := strzero (getpass_buf st1)\<rparr>"
    obtain cp2 st4 where c2: "call_getpass w Reenter_new_password st3 = (cp2, st4)"
      by (cases "call_getpass w Reenter_new_password st3")
    note f2 = call_getpass_facts [OF c2]
    have u13: "untouched st st3" "first_prompts (trace st3) = Suc (first_prompts (trace st))"
      "retries st3 = retries st"
      using f1 by (simp_all add: st3_def untouched_def first_prompts_def)
    show ?thesis
    proof (cases cp2)
      case None
      with c1 c2 Some f2 u13 fail_exit_untouched [of cfg w 1 st4] show ?thesis
        by (auto simp: passwd_attempt_def Let_def st3_def [symmetric] first_prompts_def
                       untouched_def)
    next
      case b: (Some b)
      have bz: "all_zero (strzero (getpass_buf st4))"
        using f2 b by blast
      with c1 c2 Some b f2 u13 show ?thesis
        by (auto simp: passwd_attempt_def Let_def st3_def [symmetric] first_prompts_def
                       untouched_def all_zero_memzero)
    qed
  qed
qed


lemma change_passwd_loop_bound:
  "case change_passwd_loop cfg w st of
     Exit s st' \<Rightarrow> s = 1 \<and> untouched st st'
        \<and> first_prompts (trace st') \<le> first_prompts (trace st) + (RETRIES - retries st)
   | Cont st' \<Rightarrow> untouched st st'
        \<and> first_prompts (trace st') \<le> first_prompts (trace st) + (RETRIES - retries st)
   | Undefined_behaviour \<Rightarrow> False"
proof (induction cfg w st rule: change_passwd_loop.induct)
  case (1 cfg w st)
  show ?case
  proof (cases "retries st < RETRIES")
    case False
    then show ?thesis
      by (subst change_passwd_loop.simps) (simp add: untouched_refl)
  next
    case True
    note a = passwd_attempt_cases [where cfg = cfg and w = w and st = st]
    show ?thesis
    proof (cases "passwd_attempt cfg w st")
      case (Aborted out)
      with a True show ?thesis
        by (subst change_passwd_loop.simps) auto
    next
      case (Matched st1)
      with a True show ?thesis
        by (subst change_passwd_loop.simps) auto
    next
      case (Mismatched st1)
      define st2 where "st2 = (if retries st1 + 1 < RETRIES
                               then emit (Stdout They_dont_match) st1 else st1)"
      define st3 where "st3 = st2\<lparr>retries := retries st2 + 1\<rparr>"
      have ih: "case change_passwd_loop cfg w st3 of
                  Exit s st' \<Rightarrow> s = 1 \<and> untouched st3 st'
                    \<and> first_prompts (trace st') \<le> first_prompts (trace st3) + (RETRIES - retries st3)
                | Cont st' \<Rightarrow> untouched st3 st'
                    \<and> first_prompts (trace st') \<le> first_prompts (trace st3) + (RETRIES - retries st3)
                | Undefined_behaviour \<Rightarrow> False"
        unfolding st3_def using "1.IH" [OF True Mismatched st2_def] .
      have u: "untouched st st3" "first_prompts (trace st3) = Suc (first_prompts (trace st))"
        "retries st3 = Suc (retries st)"
        using a Mismatched
        by (auto simp: st3_def st2_def emit_def untouched_def first_prompts_def)
      have eq: "change_passwd_loop cfg w st = change_passwd_loop cfg w st3"
        using True Mismatched
        by (subst change_passwd_loop.simps) (simp add: st3_def st2_def Let_def)
      show ?thesis
        using ih u True unfolding eq
        by (auto simp: untouched_def split: outcome.splits)
    qed
  qed
qed

lemma mismatched_attempt:
  assumes "mismatched_entry cfg w (getpass_calls st)"
  shows "\<exists>st'. passwd_attempt cfg w st = Mismatched st'
           \<and> getpass_calls st' = getpass_calls st + 2"
  using assms
  by (auto simp: mismatched_entry_def passwd_attempt_def call_getpass_def emit_def Let_def
                 c_str_idem split: option.splits)

lemma mismatched_step:
  assumes "mismatched_entry cfg w (getpass_calls st)" and "retries st < RETRIES"
  shows "\<exists>st2. change_passwd_loop cfg w st = change_passwd_loop cfg w st2
           \<and> retries st2 = Suc (retries st) \<and> getpass_calls st2 = getpass_calls st + 2
           \<and> untouched st st2 \<and> all_zero (pass st2) \<and> all_zero (getpass_buf st2)
           \<and> (\<forall>e. e \<in> set (trace st) \<longrightarrow> e \<in> set (trace st2))"
proof -
  from mismatched_attempt [OF assms(1)] obtain st1 where
    m: "passwd_attempt cfg w st = Mismatched st1"
    and g: "getpass_calls st1 = getpass_calls st + 2" by blast
  define st2 where "st2 = (if retries st1 + 1 < RETRIES
                           then emit (Stdout They_dont_match) st1 else st1)
                          \<lparr>retries := retries (if retries st1 + 1 < RETRIES
                             then emit (Stdout They_dont_match) st1 else st1) + 1\<rparr>"
  have eq: "change_passwd_loop cfg w st = change_passwd_loop cfg w st2"
    using assms(2) m
    by (subst change_passwd_loop.simps) (simp add: st2_def Let_def)
  have tr: "\<forall>e. e \<in> set (trace st) \<longrightarrow> e \<in> set (trace st1)"
    using m
    by (auto simp: passwd_attempt_def call_getpass_def emit_def Let_def
             split: option.splits if_splits)
  from passwd_attempt_cases [where cfg = cfg and w = w and st = st] m g tr eq show ?thesis
    by (intro exI [of _ st2]) (auto simp: st2_def emit_def untouched_def)
qed


lemma change_passwd_prompts:
  "first_prompts (outcome_trace (change_passwd cfg w st)) \<le> first_prompts (trace st) + 3"
proof -
  define st0 where "st0 = emit (Stdout (Changing_password_for (group_nm st))) (st\<lparr>retries := 0\<rparr>)"
  have s0: "first_prompts (trace st0) = first_prompts (trace st)" "retries st0 = 0"
    by (simp_all add: st0_def emit_def first_prompts_def)
  note b = change_passwd_loop_bound [where cfg = cfg and w = w and st = st0]
  show ?thesis
  proof (cases "change_passwd_loop cfg w st0")
    case (Exit s st')
    with b s0 show ?thesis
      by (simp add: change_passwd_def st0_def [symmetric] seq_def outcome_trace_def RETRIES_def)
  next
    case (Cont st1)
    from fail_exit_untouched [of cfg w 1 "emit (Stderr Try_again_later) st1"]
    obtain st' where f: "fail_exit cfg w 1 (emit (Stderr Try_again_later) st1) = Exit 1 st'"
      and p: "first_prompts (trace st') = first_prompts (trace (emit (Stderr Try_again_later) st1))"
      by blast
    have p1: "first_prompts (trace (emit (Stderr Try_again_later) st1)) = first_prompts (trace st1)"
      by (simp add: emit_def first_prompts_def)
    from b s0 Cont f p p1 show ?thesis
      by (simp add: change_passwd_def st0_def [symmetric] seq_def outcome_trace_def
                    RETRIES_def Let_def)
  next
    case Undefined_behaviour
    with b show ?thesis by simp
  qed
qed

lemma change_passwd_exhausted:
  assumes m0: "mismatched_entry cfg w (getpass_calls st)"
    and m1: "mismatched_entry cfg w (getpass_calls st + 2)"
    and m2: "mismatched_entry cfg w (getpass_calls st + 4)"
  shows "\<exists>st'. change_passwd cfg w st = Exit 1 st'
            \<and> Stderr Try_again_later \<in> set (trace st')
            \<and> grent st' = grent st \<and> sgent st' = sgent st
            \<and> filter is_update (trace st') = filter is_update (trace st)"
proof -
  define st0 where "st0 = emit (Stdout (Changing_password_for (group_nm st))) (st\<lparr>retries := 0\<rparr>)"
  have s0: "retries st0 = 0" "getpass_calls st0 = getpass_calls st" "untouched st st0"
    by (simp_all add: st0_def emit_def untouched_def)
  from mismatched_step [of cfg w st0] m0 s0 obtain sa where
    a: "change_passwd_loop cfg w st0 = change_passwd_loop cfg w sa" "retries sa = 1"
       "getpass_calls sa = getpass_calls st + 2" "untouched st0 sa"
    by (auto simp: RETRIES_def)
  from mismatched_step [of cfg w sa] m1 a obtain sb where
    b: "change_passwd_loop cfg w sa = change_passwd_loop cfg w sb" "retries sb = 2"
       "getpass_calls sb = getpass_calls st + 4" "untouched sa sb"
    by (auto simp: RETRIES_def)
  from mismatched_step [of cfg w sb] m2 b obtain sc where
    c: "change_passwd_loop cfg w sb = change_passwd_loop cfg w sc" "retries sc = 3"
       "untouched sb sc"
    by (auto simp: RETRIES_def)
  have l: "change_passwd_loop cfg w st0 = Cont sc"
    using a(1) b(1) c(1) c(2)
    by (simp add: change_passwd_loop.simps [of cfg w sc] RETRIES_def)
  have u: "untouched st sc"
    using s0(3) a(4) b(4) c(3) by (blast intro: untouched_trans)
  from fail_exit_untouched [of cfg w 1 "emit (Stderr Try_again_later) sc"]
  obtain st' where f: "fail_exit cfg w 1 (emit (Stderr Try_again_later) sc) = Exit 1 st'"
    and fu: "untouched (emit (Stderr Try_again_later) sc) st'"
    and ft: "\<forall>e. e \<in> set (trace (emit (Stderr Try_again_later) sc)) \<longrightarrow> e \<in> set (trace st')"
    by blast
  have "change_passwd cfg w st = Exit 1 st'"
    using l c(2) f
    by (simp add: change_passwd_def st0_def [symmetric] seq_def RETRIES_def)
  moreover have "Stderr Try_again_later \<in> set (trace st')"
    using ft by (simp add: emit_def)
  moreover have "untouched st st'"
    using u fu by (simp add: untouched_def emit_def)
  ultimately show ?thesis
    by (auto simp: untouched_def)
qed

text \<open>
  C5. A run of \<open>change_passwd\<close> shows the first prompt at most 3 times. A turn of its
  loop that ends in a mismatch leaves both the buffer \<open>pass\<close> and the buffer of
  \<^verbatim>\<open>getpass\<close> zeroed, and the loop goes on from a state with these zeroed buffers.
  When the three confirmations all mismatch, \<open>change_passwd\<close> prints "Try again
  later" and exits with status 1; neither record has changed and nothing was written
  to a store.
\<close>

theorem change_passwd_retries:
  "first_prompts (outcome_trace (change_passwd cfg w st)) \<le> first_prompts (trace st) + 3
   \<and> (\<forall>st1. retries st < RETRIES \<and> passwd_attempt cfg w st = Mismatched st1 \<longrightarrow>
         all_zero (pass st1) \<and> all_zero (getpass_buf st1)
         \<and> (\<exists>st2. change_passwd_loop cfg w st = change_passwd_loop cfg w st2
                \<and> retries st2 = retries st + 1
                \<and> pass st2 = pass st1 \<and> getpass_buf st2 = getpass_buf st1))
   \<and> (mismatched_entry cfg w (getpass_calls st)
        \<and> mismatched_entry cfg w (getpass_calls st + 2)
        \<and> mismatched_entry cfg w (getpass_calls st + 4) \<longrightarrow>
         (\<exists>st'. change_passwd cfg w st = Exit 1 st'
            \<and> Stderr Try_again_later \<in> set (trace st')
            \<and> grent st' = grent st \<and> sgent st' = sgent st
            \<and> filter is_update (trace st') = filter is_update (trace st)))"
proof (intro conjI allI impI)
  show "first_prompts (outcome_trace (change_passwd cfg w st)) \<le> first_prompts (trace st) + 3"
    by (rule change_passwd_prompts)
next
  fix st1
  assume a: "retries st < RETRIES \<and> passwd_attempt cfg w st = Mismatched st1"
  with passwd_attempt_cases [where cfg = cfg and w = w and st = st]
  show "all_zero (pass st1)" and "all_zero (getpass_buf st1)"
    by simp_all
  define st2 where "st2 = (if retries st1 + 1 < RETRIES
                           then emit (Stdout They_dont_match) st1 else st1)
                          \<lparr>retries := retries (if retries st1 + 1 < RETRIES
                             then emit (Stdout They_dont_match) st1 else st1) + 1\<rparr>"
  have "change_passwd_loop cfg w st = change_passwd_loop cfg w st2"
    using a by (subst change_passwd_loop.simps) (simp add: st2_def Let_def)
  moreover have "retries st2 = retries st + 1"
    using a passwd_attempt_cases [where cfg = cfg and w = w and st = st]
    by (simp add: st2_def emit_def)
  moreover have "pass st2 = pass st1" "getpass_buf st2 = getpass_buf st1"
    by (simp_all add: st2_def emit_def)
  ultimately show "\<exists>st2. change_passwd_loop cfg w st = change_passwd_loop cfg w st2
                \<and> retries st2 = retries st + 1
                \<and> pass st2 = pass st1 \<and> getpass_buf st2 = getpass_buf st1"
    by blast
next
  assume "mismatched_entry cfg w (getpass_calls st)
        \<and> mismatched_entry cfg w (getpass_calls st + 2)
        \<and> mismatched_entry cfg w (getpass_calls st + 4)"
  then show "\<exists>st'. change_passwd cfg w st = Exit 1 st'
            \<and> Stderr Try_again_later \<in> set (trace st')
            \<and> grent st' = grent st \<and> sgent st' = sgent st
            \<and> filter is_update (trace st') = filter is_update (trace st)"
    using change_passwd_exhausted by blast
qed

theorem change_passwd_retries_witness:
  "\<exists>st'. change_passwd ex_cfg ex_world_typo (ex_loaded ''root'' 0) = Exit 1 st'
      \<and> Stderr Try_again_later \<in> set (trace st')
      \<and> grent st' = ex_gr \<and> sgent st' = ex_sg \<and> filter is_update (trace st') = []"
proof -
  have m: "mismatched_entry ex_cfg ex_world_typo n" if "even n" for n
    using that
    by (simp add: mismatched_entry_def ex_world_typo_def ex_world_def ex_cfg_def strfcpy_def
                  c_str_def NUL_def)
  have "mismatched_entry ex_cfg ex_world_typo (getpass_calls (ex_loaded ''root'' 0))
        \<and> mismatched_entry ex_cfg ex_world_typo (getpass_calls (ex_loaded ''root'' 0) + 2)
        \<and> mismatched_entry ex_cfg ex_world_typo (getpass_calls (ex_loaded ''root'' 0) + 4)"
    by (simp add: m ex_loaded_def initial_state_def)
  with change_passwd_retries [of ex_cfg ex_world_typo "ex_loaded ''root'' 0"]
  show ?thesis
    by (simp add: ex_loaded_def initial_state_def)
qed

section \<open>Processing the flags\<close>

lemma flag_ok_refl:
  "unlocked st \<Longrightarrow> flag_ok st st"
  by (simp add: flag_ok_def extends_def)

lemma flag_ok_trans: "flag_ok a b \<Longrightarrow> flag_ok b c \<Longrightarrow> flag_ok a c"
  by (auto simp: flag_ok_def intro: extends_trans)

lemma process_flag_cases:
  assumes "unlocked st"
  shows "case process_flag cfg w f st of
           Exit s st' \<Rightarrow> flag_ok st st'
         | Cont st' \<Rightarrow> flag_ok st st' \<and> (sets_a_list f \<longrightarrow> amroot st)
         | Undefined_behaviour \<Rightarrow> False"
proof (cases f)
  case (Flag_a u)
  with assms show ?thesis
    by (simp add: process_flag_def Let_def fail_exit_def unlocked_def flag_ok_def
                  extends_def emit_def)
next
  case (Flag_A l)
  obtain valid ext where v: "is_valid_user_list w l (st\<lparr>admins := Some l\<rparr>)
        = (valid, st\<lparr>admins := Some l, trace := trace st @ ext\<rparr>)"
    and e: "list_all user_event ext"
    using is_valid_user_list_frame [of w l "st\<lparr>admins := Some l\<rparr>"] by auto
  from assms e show ?thesis
    by (simp add: Flag_A process_flag_def v Let_def fail_exit_def failure_def usage_def
                  unlocked_def flag_ok_def extends_def emit_def)
next
  case (Flag_M l)
  obtain valid ext where v: "is_valid_user_list w l (st\<lparr>members := Some l\<rparr>)
        = (valid, st\<lparr>members := Some l, trace := trace st @ ext\<rparr>)"
    and e: "list_all user_event ext"
    using is_valid_user_list_frame [of w l "st\<lparr>members := Some l\<rparr>"] by auto
  from assms e show ?thesis
    by (simp add: Flag_M process_flag_def v Let_def fail_exit_def failure_def
                  unlocked_def flag_ok_def extends_def emit_def)
qed (use assms in \<open>simp_all add: process_flag_def usage_def unlocked_def flag_ok_def
                  extends_def emit_def\<close>)

lemma process_flag_loop_cases:
  assumes "unlocked st"
  shows "case process_flag_loop cfg w fs st of
           Exit s st' \<Rightarrow> flag_ok st st'
         | Cont st' \<Rightarrow> flag_ok st st' \<and> (list_ex sets_a_list fs \<longrightarrow> amroot st)
         | Undefined_behaviour \<Rightarrow> False"
  using assms
proof (induction fs arbitrary: st)
  case Nil
  then show ?case by (simp add: flag_ok_refl)
next
  case (Cons f fs)
  note p = process_flag_cases [OF Cons.prems, where cfg = cfg and w = w and f = f]
  show ?case
  proof (cases "process_flag cfg w f st")
    case (Exit s st')
    with p show ?thesis by (simp add: seq_def)
  next
    case (Cont st1)
    with p have f1: "flag_ok st st1" and a: "sets_a_list f \<longrightarrow> amroot st" by simp_all
    then have u: "unlocked st1" and b: "bywho st1 = bywho st" by (simp_all add: flag_ok_def)
    from Cons.IH [OF u] f1 a b Cont show ?thesis
      by (auto simp: seq_def amroot_def split: outcome.splits intro: flag_ok_trans)
  next
    case Undefined_behaviour
    with p show ?thesis by simp
  qed
qed

lemma check_flags_cases:
  assumes "unlocked st"
  shows "case check_flags cfg a b st of
           Exit s st' \<Rightarrow> flag_ok st st'
         | Cont st' \<Rightarrow> st' = st
         | Undefined_behaviour \<Rightarrow> False"
  using assms
  by (simp add: check_flags_def usage_def Let_def flag_ok_def unlocked_def extends_def
                emit_def)

lemma process_flags_cases:
  assumes "unlocked st"
  shows "case process_flags cfg w args st of
           Exit s st' \<Rightarrow> flag_ok st st'
         | Cont st' \<Rightarrow> flag_ok st st' \<and> (list_ex sets_a_list (flags args) \<longrightarrow> amroot st)
         | Undefined_behaviour \<Rightarrow> False"
proof (cases "process_flag_loop cfg w (flags args) st")
  case (Exit s st')
  with process_flag_loop_cases [OF assms, where cfg = cfg and w = w and fs = "flags args"]
  show ?thesis by (simp add: process_flags_def seq_def)
next
  case (Cont st1)
  define st2 where
    "st2 = st1\<lparr>group_nm := (case operands args of [] \<Rightarrow> None | g # _ \<Rightarrow> Some g)\<rparr>"
  from Cont process_flag_loop_cases [OF assms, where cfg = cfg and w = w and fs = "flags args"]
  have f1: "flag_ok st st1" and a: "list_ex sets_a_list (flags args) \<longrightarrow> amroot st"
    by simp_all
  then have f2: "flag_ok st st2"
    by (simp add: st2_def flag_ok_def unlocked_def extends_def)
  then have u: "unlocked st2" by (simp add: flag_ok_def)
  from check_flags_cases [OF u, where cfg = cfg and a = "argc args" and b = "optind args"]
       f2 a Cont
  show ?thesis
    by (auto simp: process_flags_def seq_def st2_def [symmetric]
             split: outcome.splits intro: flag_ok_trans)
next
  case Undefined_behaviour
  with process_flag_loop_cases [OF assms, where cfg = cfg and w = w and fs = "flags args"]
  show ?thesis by simp
qed


lemma initial_unlocked: "unlocked (initial_state cfg gr0 sg0)"
  by (simp add: unlocked_def initial_state_def)

lemma main_exits_on_list_flags:
  assumes "getuid w \<noteq> 0" and "list_ex sets_a_list (flags args)"
  shows "\<exists>s st'. main cfg w args gr0 sg0 = Exit s st' \<and> list_all user_event (trace st')
           \<and> grent st' = gr0 \<and> sgent st' = sg0"
proof -
  define st2 where "st2 = (if SHADOWGRP cfg
      then (initial_state cfg gr0 sg0)\<lparr>bywho := getuid w, is_shadowgrp := sgr_file_present w\<rparr>
      else (initial_state cfg gr0 sg0)\<lparr>bywho := getuid w\<rparr>)"
  have s2: "unlocked st2" "\<not> amroot st2" "trace st2 = []" "grent st2 = gr0" "sgent st2 = sg0"
    using assms(1) by (simp_all add: st2_def unlocked_def initial_state_def amroot_def)
  have m: "main cfg w args gr0 sg0 =
             seq (process_flags cfg w args st2)
               (\<lambda>st3. case get_my_pwent w of
                  None \<Rightarrow> failure cfg w (emit (Stderr Who_are_you) st3)
                | Some name \<Rightarrow>
                    seq (get_group cfg w (st3\<lparr>myname := Some name\<rparr>))
                      (\<lambda>st4. seq (check_perms cfg w st4)
                         (\<lambda>st5. seq (operation cfg w st5) (output_phase cfg w))))"
    by (simp add: main_def main_from_def st2_def Let_def)
  from process_flags_cases [OF s2(1), where cfg = cfg and w = w and args = args] assms(2) s2
  show ?thesis
    unfolding m
    by (cases "process_flags cfg w args st2")
       (auto simp: seq_def flag_ok_def extends_def)
qed

text \<open>
  C4. For a caller who is not root, the turn of the option loop for \<^verbatim>\<open>-M\<close>, and in a
  build with shadow groups the turn for \<^verbatim>\<open>-A\<close>, is exactly \<open>failure\<close>: "Permission
  denied" and exit status 1, whatever the lists of the group hold. These checks come
  before the record pair is loaded and \<open>check_perms\<close> is consulted: a run by a non-root
  caller with \<^verbatim>\<open>-A\<close> or \<^verbatim>\<open>-M\<close> among its options always exits having touched no store
  (its only events are diagnostics and identity-store lookups) and neither record.
\<close>

theorem list_options_need_root:
  "(\<not> amroot st \<longrightarrow>
      process_flag cfg w (Flag_M l) st = failure cfg w st
      \<and> (SHADOWGRP cfg \<longrightarrow> process_flag cfg w (Flag_A l) st = failure cfg w st)
      \<and> (\<exists>st'. failure cfg w st = Exit 1 st' \<and> Stderr Permission_denied \<in> set (trace st')))
   \<and> (getuid w \<noteq> 0 \<and> list_ex sets_a_list (flags args) \<longrightarrow>
        (\<exists>s st'. main cfg w args gr0 sg0 = Exit s st' \<and> list_all user_event (trace st')
           \<and> grent st' = gr0 \<and> sgent st' = sg0))"
proof (intro conjI impI)
  assume "\<not> amroot st"
  then show "process_flag cfg w (Flag_M l) st = failure cfg w st"
    by (simp add: process_flag_def)
next
  assume "\<not> amroot st" and "SHADOWGRP cfg"
  then show "process_flag cfg w (Flag_A l) st = failure cfg w st"
    by (simp add: process_flag_def)
next
  from failure_denied [of cfg w st]
  show "\<exists>st'. failure cfg w st = Exit 1 st' \<and> Stderr Permission_denied \<in> set (trace st')"
    by blast
next
  assume "getuid w \<noteq> 0 \<and> list_ex sets_a_list (flags args)"
  then show "\<exists>s st'. main cfg w args gr0 sg0 = Exit s st' \<and> list_all user_event (trace st')
           \<and> grent st' = gr0 \<and> sgent st' = sg0"
    using main_exits_on_list_flags by blast
qed

theorem list_options_need_root_witness:
  "process_flag ex_cfg ex_world_alice (Flag_M ''alice,carol'') (ex_loaded ''alice'' 1001)
     = failure ex_cfg ex_world_alice (ex_loaded ''alice'' 1001)
   \<and> process_flag ex_cfg ex_world_alice (Flag_A ''alice,carol'') (ex_loaded ''alice'' 1001)
     = failure ex_cfg ex_world_alice (ex_loaded ''alice'' 1001)
   \<and> (\<exists>s st'. main ex_cfg ex_world_alice (ex_args_M ''alice,carol'') ex_gr0 ex_sg0 = Exit s st'
         \<and> list_all user_event (trace st') \<and> grent st' = ex_gr0 \<and> sgent st' = ex_sg0)"
  using list_options_need_root [of "ex_loaded ''alice'' 1001" ex_cfg ex_world_alice
          "''alice,carol''" "ex_args_M ''alice,carol''" ex_gr0 ex_sg0]
  by (simp add: ex_loaded_def initial_state_def amroot_def ex_cfg_def ex_world_alice_def
                ex_world_def ex_args_M_def)

section \<open>The identity store and the remove operation\<close>

lemma fail_exit_getpwnam: "fail_exit cfg (w\<lparr>getpwnam := db\<rparr>) s st = fail_exit cfg w s st"
  by (simp add: fail_exit_def Let_def cong: if_cong)

lemma failure_getpwnam: "failure cfg (w\<lparr>getpwnam := db\<rparr>) st = failure cfg w st"
  by (simp add: failure_def fail_exit_getpwnam)

lemma get_group_getpwnam: "get_group cfg (w\<lparr>getpwnam := db\<rparr>) st = get_group cfg w st"
  by (simp add: get_group_def fail_exit_getpwnam failure_getpwnam Let_def seq_def
           cong: if_cong option.case_cong list.case_cong outcome.case_cong prod.case_cong)

lemma check_perms_getpwnam: "check_perms cfg (w\<lparr>getpwnam := db\<rparr>) st = check_perms cfg w st"
  by (simp add: check_perms_def failure_getpwnam Let_def seq_def
           cong: if_cong option.case_cong list.case_cong outcome.case_cong prod.case_cong)

lemma open_files_getpwnam: "open_files cfg (w\<lparr>getpwnam := db\<rparr>) st = open_files cfg w st"
  by (simp add: open_files_def fail_exit_getpwnam Let_def seq_def
           cong: if_cong option.case_cong list.case_cong outcome.case_cong prod.case_cong)

lemma update_group_getpwnam: "update_group cfg (w\<lparr>getpwnam := db\<rparr>) st = update_group cfg w st"
  by (simp add: update_group_def fail_exit_getpwnam Let_def seq_def
           cong: if_cong option.case_cong list.case_cong outcome.case_cong prod.case_cong)

lemma close_files_getpwnam: "close_files cfg (w\<lparr>getpwnam := db\<rparr>) st = close_files cfg w st"
  by (simp add: close_files_def fail_exit_getpwnam Let_def seq_def
           cong: if_cong option.case_cong list.case_cong outcome.case_cong prod.case_cong)

lemma output_phase_getpwnam: "output_phase cfg (w\<lparr>getpwnam := db\<rparr>) st = output_phase cfg w st"
  by (simp add: output_phase_def fail_exit_getpwnam open_files_getpwnam update_group_getpwnam
                close_files_getpwnam Let_def seq_def
           cong: if_cong option.case_cong list.case_cong outcome.case_cong prod.case_cong)

lemma passwd_attempt_getpwnam:
  "passwd_attempt cfg (w\<lparr>getpwnam := db\<rparr>) st = passwd_attempt cfg w st"
  by (simp add: passwd_attempt_def call_getpass_def fail_exit_getpwnam Let_def seq_def
           cong: if_cong option.case_cong list.case_cong outcome.case_cong prod.case_cong)

lemma change_passwd_loop_getpwnam:
  "change_passwd_loop cfg (w\<lparr>getpwnam := db\<rparr>) st = change_passwd_loop cfg w st"
proof (induction cfg w st rule: change_passwd_loop.induct)
  case (1 cfg w st)
  show ?case
    apply (subst (1 2) change_passwd_loop.simps)
    using "1.IH"
    apply (auto simp: passwd_attempt_getpwnam Let_def split: attempt.splits)
    done
qed

lemma change_passwd_getpwnam:
  "change_passwd cfg (w\<lparr>getpwnam := db\<rparr>) st = change_passwd cfg w st"
  by (simp add: change_passwd_def change_passwd_loop_getpwnam fail_exit_getpwnam Let_def seq_def
           cong: if_cong option.case_cong list.case_cong outcome.case_cong prod.case_cong)

lemma operation_getpwnam: "operation cfg (w\<lparr>getpwnam := db\<rparr>) st = operation cfg w st"
  by (simp add: operation_def change_passwd_getpwnam fail_exit_getpwnam Let_def seq_def
           cong: if_cong option.case_cong list.case_cong outcome.case_cong prod.case_cong)


lemma main_remove_getpwnam:
  "main cfg (w\<lparr>getpwnam := db\<rparr>) \<lparr>flags = [Flag_d u], optind = n, operands = ops\<rparr> gr0 sg0
     = main cfg w \<lparr>flags = [Flag_d u], optind = n, operands = ops\<rparr> gr0 sg0"
  by (simp add: main_def main_from_def process_flags_def process_flag_def seq_def
                get_group_getpwnam check_perms_getpwnam operation_getpwnam
                output_phase_getpwnam failure_getpwnam Let_def
           cong: if_cong option.case_cong outcome.case_cong)

text \<open>
  C10. The turn of the option loop for \<^verbatim>\<open>-a\<close> exits with status 1 when the named user
  is not in the identity store. The turn for \<^verbatim>\<open>-d\<close> only records the name: it makes no
  lookup and never fails. A whole run of \<^verbatim>\<open>gpasswd -d user group\<close> is the same whatever
  the identity store answers to lookups by name. The remove operation itself returns
  exactly when the name is on the primary member list or, with a shadow store in use, on
  the shadow member list, and otherwise exits with status 1 after the not-a-member
  message.
\<close>

theorem remove_ignores_identity_store:
  "(\<not> getpwnam w u \<longrightarrow>
      (\<exists>st'. process_flag cfg w (Flag_a u) st = Exit 1 st'
          \<and> Stderr (User_does_not_exist u) \<in> set (trace st')))
   \<and> process_flag cfg w (Flag_d u) st = Cont (st\<lparr>dflg := True, user := Some u\<rparr>)
   \<and> main cfg (w\<lparr>getpwnam := db\<rparr>) \<lparr>flags = [Flag_d u], optind = n, operands = ops\<rparr> gr0 sg0
       = main cfg w \<lparr>flags = [Flag_d u], optind = n, operands = ops\<rparr> gr0 sg0
   \<and> (\<not> rflg st \<and> \<not> Rflg st \<and> \<not> aflg st \<and> dflg st \<and> user st = Some u
        \<and> group_nm st = Some g \<longrightarrow>
        (if is_on_list (gr_mem (grent st)) u
            \<or> (shadow_in_use cfg st \<and> is_on_list (sg_mem (sgent st)) u)
         then (\<exists>st'. operation cfg w st = Cont st')
         else (\<exists>st'. operation cfg w st = Exit 1 st'
                  \<and> Stderr (Not_a_member u g) \<in> set (trace st'))))"
proof (intro conjI impI)
  assume "\<not> getpwnam w u"
  then show "\<exists>st'. process_flag cfg w (Flag_a u) st = Exit 1 st'
          \<and> Stderr (User_does_not_exist u) \<in> set (trace st')"
    by (simp add: process_flag_def fail_exit_def emit_def Let_def)
next
  show "process_flag cfg w (Flag_d u) st = Cont (st\<lparr>dflg := True, user := Some u\<rparr>)"
    by (simp add: process_flag_def)
next
  show "main cfg (w\<lparr>getpwnam := db\<rparr>) \<lparr>flags = [Flag_d u], optind = n, operands = ops\<rparr> gr0 sg0
       = main cfg w \<lparr>flags = [Flag_d u], optind = n, operands = ops\<rparr> gr0 sg0"
    by (rule main_remove_getpwnam)
next
  assume "\<not> rflg st \<and> \<not> Rflg st \<and> \<not> aflg st \<and> dflg st \<and> user st = Some u
        \<and> group_nm st = Some g"
  then show "if is_on_list (gr_mem (grent st)) u
            \<or> (shadow_in_use cfg st \<and> is_on_list (sg_mem (sgent st)) u)
         then (\<exists>st'. operation cfg w st = Cont st')
         else (\<exists>st'. operation cfg w st = Exit 1 st'
                  \<and> Stderr (Not_a_member u g) \<in> set (trace st'))"
    by (auto simp: operation_def shadow_in_use_def emit_def fail_exit_def Let_def)
qed

theorem remove_ignores_identity_store_witness:
  "\<not> getpwnam ex_world ''ghost''
   \<and> (\<exists>st'. process_flag ex_cfg ex_world (Flag_a ''ghost'') ex_remove_ghost = Exit 1 st'
          \<and> Stderr (User_does_not_exist ''ghost'') \<in> set (trace st'))
   \<and> (\<exists>st'. operation ex_cfg ex_world ex_remove_ghost = Cont st')
   \<and> (\<exists>st'. operation ex_cfg ex_world (ex_remove ''carol'') = Exit 1 st'
          \<and> Stderr (Not_a_member ''carol'' ''eng'') \<in> set (trace st'))"
  using remove_ignores_identity_store [where w = ex_world and u = "''ghost''" and cfg = ex_cfg
          and st = ex_remove_ghost and g = "''eng''"]
        remove_ignores_identity_store [where w = ex_world and u = "''carol''" and cfg = ex_cfg
          and st = "ex_remove ''carol''" and g = "''eng''"]
  by (simp add: ex_remove_ghost_def ex_remove_def ex_loaded_def initial_state_def
                ex_world_def ex_cfg_def ex_gr_def ex_sg_def is_on_list_def shadow_in_use_def)

section \<open>Locks\<close>

lemma locks_held_append: "locks_held h (xs @ ys) = locks_held (locks_held h xs) ys"
  by (induction h xs rule: locks_held.induct) simp_all

lemma locks_held_pre: "list_all pre_event ext \<Longrightarrow> locks_held h ext = h"
  by (induction h ext rule: locks_held.induct) simp_all

lemma fail_exit_locks: "lock_inv cfg b \<Longrightarrow> lock_ok cfg a (fail_exit cfg w s b)"
  by (auto simp: fail_exit_def lock_inv_def flags_track_locks_def lock_ok_def emit_def
                locks_held_append Let_def)

lemma open_files_locks:
  assumes "lock_inv cfg st" and "unlocked st"
  shows "lock_ok cfg st (open_files cfg w st)"
  using assms
  by (auto simp: open_files_def fail_exit_def lock_inv_def flags_track_locks_def lock_ok_def
                 emit_def unlocked_def seq_def locks_held_append Let_def)


lemma update_group_locks:
  assumes "lock_inv cfg st"
  shows "lock_ok cfg st (update_group cfg w st)"
  using assms
  by (auto simp: update_group_def fail_exit_def lock_inv_def flags_track_locks_def lock_ok_def
                 emit_def locks_held_append Let_def)

lemma close_files_locks:
  assumes "lock_inv cfg st"
  shows "case close_files cfg w st of
           Exit s st' \<Rightarrow> locks_held (False, False) (trace st') = (False, False)
         | Cont st' \<Rightarrow> locks_held (False, False) (trace st') = (False, False)
         | Undefined_behaviour \<Rightarrow> True"
  using assms
  by (auto simp: close_files_def fail_exit_def lock_inv_def flags_track_locks_def
                 emit_def seq_def locks_held_append Let_def)

lemma output_phase_locks:
  assumes "lock_inv cfg st" and "unlocked st"
  shows "locks_held (False, False) (outcome_trace (output_phase cfg w st)) = (False, False)"
proof (cases "setuid0 w")
  case False
  with assms show ?thesis
    by (simp add: output_phase_def fail_exit_def lock_inv_def flags_track_locks_def
                  unlocked_def emit_def locks_held_append outcome_trace_def Let_def)
next
  case True
  define st1 where "st1 = emit Pwd_init (emit (Setuid0 True) st)"
  have i1: "lock_inv cfg st1" "unlocked st1"
    using assms
    by (simp_all add: st1_def lock_inv_def flags_track_locks_def unlocked_def emit_def
                      locks_held_append)
  note o = open_files_locks [OF i1, of w]
  have eq: "output_phase cfg w st =
              seq (open_files cfg w st1)
                (\<lambda>st2. seq (update_group cfg w st2)
                   (\<lambda>st3. seq (close_files cfg w st3)
                      (\<lambda>st4. Exit (E_SUCCESS cfg) (emit Nscd_flush_cache st4))))"
    using True by (simp add: output_phase_def st1_def Let_def)
  show ?thesis
  proof (cases "open_files cfg w st1")
    case (Exit s st')
    with o show ?thesis by (simp add: eq seq_def lock_ok_def outcome_trace_def)
  next
    case Undefined_behaviour
    then show ?thesis by (simp add: eq seq_def outcome_trace_def)
  next
    case (Cont st2)
    with o have i2: "lock_inv cfg st2" by (simp add: lock_ok_def)
    note u = update_group_locks [OF i2, of w]
    show ?thesis
    proof (cases "update_group cfg w st2")
      case (Exit s st')
      with u Cont show ?thesis by (simp add: eq seq_def lock_ok_def outcome_trace_def)
    next
      case Undefined_behaviour
      with Cont show ?thesis by (simp add: eq seq_def outcome_trace_def)
    next
      case c3: (Cont st3)
      with u have i3: "lock_inv cfg st3" by (simp add: lock_ok_def)
      from close_files_locks [OF i3, of w] Cont c3 show ?thesis
        by (auto simp: eq seq_def outcome_trace_def emit_def locks_held_append
                 split: outcome.splits)
    qed
  qed
qed

section \<open>Commit events\<close>

lemma out_ok_Cont:
  "out_ok R a (Cont b) = R a b"
  "out_ok R a (Exit s b) = R a b"
  "out_ok R a Undefined_behaviour"
  by (simp_all add: out_ok_def)

lemma seq_simps:
  "seq (Cont st) f = f st"
  "seq (Exit s st) f = Exit s st"
  "seq Undefined_behaviour f = Undefined_behaviour"
  "seq (fail_exit cfg w s st) f = fail_exit cfg w s st"
  by (simp_all add: seq_def fail_exit_def Let_def)

lemma fail_exit_commit:
  "extends commit_event a b \<Longrightarrow> out_ok (extends commit_event) a (fail_exit cfg w s b)"
  by (simp add: fail_exit_def Let_def out_ok_def extends_emit)

lemma extends_update:
  "extends P a (b\<lparr>group_locked := x\<rparr>) = extends P a b"
  "extends P a (b\<lparr>gshadow_locked := x\<rparr>) = extends P a b"
  by (simp_all add: extends_def)

lemma open_files_commit:
  "extends commit_event a st \<Longrightarrow> out_ok (extends commit_event) a (open_files cfg w st)"
  by (simp add: open_files_def Let_def seq_simps fail_exit_commit extends_emit extends_update
                out_ok_Cont)

lemma update_group_commit:
  "extends commit_event a st \<Longrightarrow> out_ok (extends commit_event) a (update_group cfg w st)"
  by (simp add: update_group_def Let_def fail_exit_commit extends_emit out_ok_Cont)

lemma close_files_commit:
  "extends commit_event a st \<Longrightarrow> out_ok (extends commit_event) a (close_files cfg w st)"
  by (simp add: close_files_def Let_def seq_simps fail_exit_commit extends_emit extends_update
                out_ok_Cont)


section \<open>The two halves of a transaction\<close>

lemma unlocked_emit: "unlocked (emit e st) = unlocked st"
  by (simp add: unlocked_def emit_def)

lemma pre_ok_refl: "unlocked st \<Longrightarrow> pre_ok st st"
  by (simp add: pre_ok_def extends_def)

lemma pre_ok_trans: "pre_ok a b \<Longrightarrow> pre_ok b c \<Longrightarrow> pre_ok a c"
  by (auto simp: pre_ok_def intro: extends_trans)

lemma pre_ok_emit: "pre_event e \<Longrightarrow> pre_ok a b \<Longrightarrow> pre_ok a (emit e b)"
  by (simp add: pre_ok_def unlocked_emit extends_emit)

lemma pre_ok_update:
  "pre_ok a (b\<lparr>grent := gr\<rparr>) = pre_ok a b"
  "pre_ok a (b\<lparr>sgent := sg\<rparr>) = pre_ok a b"
  "pre_ok a (b\<lparr>pass := p\<rparr>) = pre_ok a b"
  "pre_ok a (b\<lparr>getpass_buf := p\<rparr>) = pre_ok a b"
  "pre_ok a (b\<lparr>getpass_calls := n\<rparr>) = pre_ok a b"
  "pre_ok a (b\<lparr>retries := n\<rparr>) = pre_ok a b"
  "pre_ok a (b\<lparr>myname := m\<rparr>) = pre_ok a b"
  by (simp_all add: pre_ok_def unlocked_def extends_def)

lemma flag_ok_pre_ok: "flag_ok a b \<Longrightarrow> pre_ok a b"
proof -
  have "pre_event e" if "user_event e" for e
    using that by (cases e) simp_all
  then show "flag_ok a b \<Longrightarrow> pre_ok a b"
    by (auto simp: flag_ok_def pre_ok_def intro: extends_mono)
qed

lemma out_ok_seq:
  assumes "out_ok R st m"
    and "\<And>st1. m = Cont st1 \<Longrightarrow> R st st1 \<Longrightarrow> out_ok R st1 (f st1)"
    and "\<And>a b c. R a b \<Longrightarrow> R b c \<Longrightarrow> R a c"
  shows "out_ok R st (seq m f)"
proof (cases m)
  case (Cont st1)
  with assms(1) have r: "R st st1" by (simp add: out_ok_def)
  from assms(2) [OF Cont r] r assms(3) Cont show ?thesis
    by (auto simp: out_ok_def seq_def split: outcome.splits)
qed (use assms(1) in \<open>simp_all add: out_ok_def seq_def\<close>)

lemma fail_exit_pre: "pre_ok a b \<Longrightarrow> out_ok pre_ok a (fail_exit cfg w s b)"
  by (simp add: pre_ok_def fail_exit_unlocked out_ok_def)

lemma failure_pre: "pre_ok a b \<Longrightarrow> out_ok pre_ok a (failure cfg w b)"
  by (simp add: failure_def fail_exit_pre pre_ok_emit)

lemma synthesize_pre: "pre_ok a b \<Longrightarrow> pre_ok a (synthesize_sgrp cfg g b)"
  by (simp add: synthesize_sgrp_def Let_def pre_ok_update split: list.splits)

lemma get_group_pre:
  assumes "unlocked st"
  shows "out_ok pre_ok st (get_group cfg w st)"
  using pre_ok_refl [OF assms]
  by (simp add: get_group_def Let_def fail_exit_pre failure_pre out_ok_Cont pre_ok_emit
                pre_ok_update synthesize_pre
           split: option.splits)


lemma located_emit:
  "list_ex is_locate (trace (emit e b)) = (list_ex is_locate (trace b) \<or> is_locate e)"
  by (auto simp: emit_def)

lemma trace_synthesize: "trace (synthesize_sgrp cfg g b) = trace b"
  by (simp add: synthesize_sgrp_def Let_def split: list.splits)

lemma fail_exit_not_Cont: "fail_exit cfg w s b \<noteq> Cont c"
  by (simp add: fail_exit_def Let_def)

lemma failure_not_Cont: "failure cfg w b \<noteq> Cont c"
  by (simp add: failure_def fail_exit_not_Cont)

lemma get_group_located:
  "get_group cfg w st = Cont st' \<Longrightarrow> list_ex is_locate (trace st')"
  by (auto simp: get_group_def Let_def located_emit trace_synthesize fail_exit_not_Cont
                 failure_not_Cont
           split: option.splits if_splits)


lemma fail_exit_not_UB: "fail_exit cfg w s b \<noteq> Undefined_behaviour"
  by (simp add: fail_exit_def Let_def)

lemma check_perms_pre:
  assumes "unlocked st"
  shows "out_ok pre_ok st (check_perms cfg w st)"
  using pre_ok_refl [OF assms]
  by (simp add: check_perms_def failure_pre out_ok_Cont split: option.splits list.splits)

lemma call_getpass_pre:
  "pre_ok a b \<Longrightarrow> pre_ok a (snd (call_getpass w p b))"
  by (simp add: call_getpass_def Let_def pre_ok_emit pre_ok_update split: option.splits)

lemma passwd_attempt_pre:
  assumes "pre_ok a st"
  shows "case passwd_attempt cfg w st of
           Aborted out \<Rightarrow> out_ok pre_ok a out \<and> out \<noteq> Undefined_behaviour
         | Matched st' \<Rightarrow> pre_ok a st'
         | Mismatched st' \<Rightarrow> pre_ok a st'"
proof -
  obtain cp st1 where c1: "call_getpass w New_password st = (cp, st1)"
    by (cases "call_getpass w New_password st")
  with call_getpass_pre [OF assms, of w New_password] have p1: "pre_ok a st1" by simp
  show ?thesis
  proof (cases cp)
    case None
    with c1 p1 show ?thesis
      by (simp add: passwd_attempt_def fail_exit_pre fail_exit_not_UB Let_def)
  next
    case (Some x)
    define st3 where "st3 = st1\<lparr>pass := STRFCPY cfg (BUFSIZ cfg) x,
                                 getpass_buf := strzero (getpass_buf st1)\<rparr>"
    have p3: "pre_ok a st3" using p1 by (simp add: st3_def pre_ok_update)
    obtain cp2 st4 where c2: "call_getpass w Reenter_new_password st3 = (cp2, st4)"
      by (cases "call_getpass w Reenter_new_password st3")
    with call_getpass_pre [OF p3, of w Reenter_new_password] have p4: "pre_ok a st4" by simp
    from c1 c2 Some p4 show ?thesis
      by (simp add: passwd_attempt_def Let_def st3_def [symmetric] fail_exit_pre fail_exit_not_UB
                    pre_ok_update split: option.splits)
  qed
qed

lemma change_passwd_loop_pre:
  "pre_ok a st \<Longrightarrow> out_ok pre_ok a (change_passwd_loop cfg w st)"
proof (induction cfg w st rule: change_passwd_loop.induct)
  case (1 cfg w st)
  note p = passwd_attempt_pre [OF "1.prems", where cfg = cfg and w = w]
  show ?case
  proof (cases "retries st < RETRIES")
    case False
    with "1.prems" show ?thesis
      by (subst change_passwd_loop.simps) (simp add: out_ok_Cont)
  next
    case True
    show ?thesis
    proof (cases "passwd_attempt cfg w st")
      case (Aborted out)
      with p True show ?thesis by (subst change_passwd_loop.simps) simp
    next
      case (Matched st1)
      with p True show ?thesis by (subst change_passwd_loop.simps) (simp add: out_ok_Cont)
    next
      case (Mismatched st1)
      define st2 where "st2 = (if retries st1 + 1 < RETRIES
                               then emit (Stdout They_dont_match) st1 else st1)"
      from p Mismatched have "pre_ok a st1" by simp
      then have "pre_ok a (st2\<lparr>retries := retries st2 + 1\<rparr>)"
        by (simp add: st2_def pre_ok_update pre_ok_emit)
      from "1.IH" [OF True Mismatched st2_def this] True Mismatched show ?thesis
        by (subst change_passwd_loop.simps) (simp add: st2_def Let_def)
    qed
  qed
qed

lemma change_passwd_pre:
  assumes "pre_ok a st"
  shows "out_ok pre_ok a (change_passwd cfg w st)"
proof -
  define st0 where "st0 = emit (Stdout (Changing_password_for (group_nm st))) (st\<lparr>retries := 0\<rparr>)"
  have p0: "pre_ok a st0" using assms by (simp add: st0_def pre_ok_emit pre_ok_update)
  note l = change_passwd_loop_pre [OF p0, of cfg w]
  show ?thesis
  proof (cases "change_passwd_loop cfg w st0")
    case (Cont st1)
    with l have "pre_ok a st1" by (simp add: out_ok_Cont)
    with Cont show ?thesis
      by (simp add: change_passwd_def st0_def [symmetric] seq_def Let_def fail_exit_pre
                    pre_ok_emit pre_ok_update out_ok_Cont)
  qed (use l in \<open>simp_all add: change_passwd_def st0_def [symmetric] seq_def\<close>)
qed

lemma operation_pre:
  assumes "unlocked st"
  shows "out_ok pre_ok st (operation cfg w st)"
  using pre_ok_refl [OF assms]
  by (simp add: operation_def Let_def seq_def out_ok_Cont pre_ok_emit pre_ok_update
                fail_exit_pre change_passwd_pre
           split: option.splits)

lemma out_ok_seq_extends:
  assumes "out_ok (extends P) st m"
    and "\<And>st1. m = Cont st1 \<Longrightarrow> out_ok (extends P) st1 (f st1)"
  shows "out_ok (extends P) st (seq m f)"
  using assms by (intro out_ok_seq) (auto intro: extends_trans)

lemma out_ok_seq_pre:
  assumes "out_ok pre_ok st m"
    and "\<And>st1. unlocked st1 \<Longrightarrow> out_ok pre_ok st1 (f st1)"
  shows "out_ok pre_ok st (seq m f)"
  using assms by (intro out_ok_seq) (auto simp: pre_ok_def intro: extends_trans)

lemma extends_self: "extends P st st"
  by (simp add: extends_def)

lemma output_phase_commit:
  "out_ok (extends commit_event) st (output_phase cfg w st)"
proof (cases "setuid0 w")
  case False
  then show ?thesis
    by (simp add: output_phase_def Let_def fail_exit_commit extends_emit extends_self)
next
  case True
  define st1 where "st1 = emit Pwd_init (emit (Setuid0 True) st)"
  have e1: "extends commit_event st st1"
    by (simp add: st1_def extends_emit extends_self)
  have eq: "output_phase cfg w st =
              seq (open_files cfg w st1)
                (\<lambda>st2. seq (update_group cfg w st2)
                   (\<lambda>st3. seq (close_files cfg w st3)
                      (\<lambda>st4. Exit (E_SUCCESS cfg) (emit Nscd_flush_cache st4))))"
    using True by (simp add: output_phase_def st1_def Let_def)
  show ?thesis
    unfolding eq
    by (intro out_ok_seq_extends open_files_commit update_group_commit close_files_commit e1
              extends_self)
       (simp add: out_ok_Cont extends_emit extends_self)
qed

lemma extends_located:
  "extends P a b \<Longrightarrow> list_ex is_locate (trace a) \<Longrightarrow> list_ex is_locate (trace b)"
  by (auto simp: extends_iff)

lemma main_split:
  "main_from cfg w args st0 = seq (load_and_operate cfg w args st0) (output_phase cfg w)"
  by (simp add: main_from_def load_and_operate_def seq_def Let_def failure_def fail_exit_def
           split: outcome.splits option.splits)

lemma load_and_operate_pre:
  assumes "unlocked st0"
  shows "out_ok pre_ok st0 (load_and_operate cfg w args st0)"
proof -
  define st2 where "st2 = (if SHADOWGRP cfg
      then st0\<lparr>bywho := getuid w, is_shadowgrp := sgr_file_present w\<rparr>
      else st0\<lparr>bywho := getuid w\<rparr>)"
  have p2: "pre_ok st0 st2" and u2: "unlocked st2"
    using assms by (simp_all add: st2_def pre_ok_def unlocked_def extends_def)
  have eq: "load_and_operate cfg w args st0 =
             seq (process_flags cfg w args st2)
               (\<lambda>st3. case get_my_pwent w of
                  None \<Rightarrow> failure cfg w (emit (Stderr Who_are_you) st3)
                | Some name \<Rightarrow>
                    seq (get_group cfg w (st3\<lparr>myname := Some name\<rparr>))
                      (\<lambda>st4. seq (check_perms cfg w st4) (operation cfg w)))"
    by (simp add: load_and_operate_def st2_def Let_def)
  have f: "out_ok pre_ok st2 (process_flags cfg w args st2)"
    using process_flags_cases [OF u2, where cfg = cfg and w = w and args = args]
    by (auto simp: out_ok_def flag_ok_pre_ok split: outcome.splits)
  have rest: "out_ok pre_ok st3
                (case get_my_pwent w of
                  None \<Rightarrow> failure cfg w (emit (Stderr Who_are_you) st3)
                | Some name \<Rightarrow>
                    seq (get_group cfg w (st3\<lparr>myname := Some name\<rparr>))
                      (\<lambda>st4. seq (check_perms cfg w st4) (operation cfg w)))"
    if u3: "unlocked st3" for st3
  proof (cases "get_my_pwent w")
    case None
    with u3 show ?thesis
      by (simp add: failure_pre pre_ok_emit pre_ok_refl)
  next
    case (Some name)
    have u: "unlocked (st3\<lparr>myname := Some name\<rparr>)"
      using u3 by (simp add: unlocked_def)
    have "out_ok pre_ok (st3\<lparr>myname := Some name\<rparr>)
            (seq (get_group cfg w (st3\<lparr>myname := Some name\<rparr>))
               (\<lambda>st4. seq (check_perms cfg w st4) (operation cfg w)))"
      by (intro out_ok_seq_pre get_group_pre check_perms_pre operation_pre u)
    moreover have "pre_ok st3 (st3\<lparr>myname := Some name\<rparr>)"
      using u3 by (simp add: pre_ok_update pre_ok_refl)
    ultimately show ?thesis
      using Some by (auto simp: out_ok_def split: outcome.splits intro: pre_ok_trans)
  qed
  have "out_ok pre_ok st2 (load_and_operate cfg w args st0)"
    unfolding eq
    by (intro out_ok_seq_pre f rest)
  with p2 show ?thesis
    by (auto simp: out_ok_def split: outcome.splits intro: pre_ok_trans)
qed


lemma load_and_operate_located:
  assumes "unlocked st0" and "load_and_operate cfg w args st0 = Cont st'"
  shows "list_ex is_locate (trace st')"
proof -
  define st2 where "st2 = (if SHADOWGRP cfg
      then st0\<lparr>bywho := getuid w, is_shadowgrp := sgr_file_present w\<rparr>
      else st0\<lparr>bywho := getuid w\<rparr>)"
  have u2: "unlocked st2"
    using assms(1) by (simp add: st2_def unlocked_def)
  from assms(2) obtain st3 name st4 st5 where
    a: "process_flags cfg w args st2 = Cont st3"
    and b: "get_group cfg w (st3\<lparr>myname := Some name\<rparr>) = Cont st4"
    and c: "check_perms cfg w st4 = Cont st5"
    and d: "operation cfg w st5 = Cont st'"
    by (auto simp: load_and_operate_def st2_def [symmetric] seq_def Let_def failure_not_Cont
             split: outcome.splits option.splits)
  from process_flags_cases [OF u2, where cfg = cfg and w = w and args = args] a
  have "unlocked (st3\<lparr>myname := Some name\<rparr>)"
    by (simp add: flag_ok_def unlocked_def)
  from get_group_pre [OF this, of cfg w] b have u4: "unlocked st4"
    by (simp add: out_ok_Cont pre_ok_def)
  from check_perms_pre [OF u4, of cfg w] c have p5: "pre_ok st4 st5"
    by (simp add: out_ok_Cont)
  then have u5: "unlocked st5" by (simp add: pre_ok_def)
  from operation_pre [OF u5, of cfg w] d have p6: "pre_ok st5 st'"
    by (simp add: out_ok_Cont)
  from get_group_located [OF b] p5 p6 show ?thesis
    by (auto simp: pre_ok_def dest: extends_located)
qed

section \<open>Every run ends in an exit\<close>

lemma process_flag_args:
  assumes "args_set st" and "process_flag cfg w f st = Cont st'"
  shows "args_set st'"
proof (cases f)
  case (Flag_A l)
  obtain valid ext where v: "is_valid_user_list w l (st\<lparr>admins := Some l\<rparr>)
        = (valid, st\<lparr>admins := Some l, trace := trace st @ ext\<rparr>)"
    using is_valid_user_list_frame [of w l "st\<lparr>admins := Some l\<rparr>"] by auto
  from assms show ?thesis
    by (auto simp: Flag_A process_flag_def v Let_def fail_exit_not_Cont failure_not_Cont
                   usage_def args_set_def split: if_splits)
next
  case (Flag_M l)
  obtain valid ext where v: "is_valid_user_list w l (st\<lparr>members := Some l\<rparr>)
        = (valid, st\<lparr>members := Some l, trace := trace st @ ext\<rparr>)"
    using is_valid_user_list_frame [of w l "st\<lparr>members := Some l\<rparr>"] by auto
  from assms show ?thesis
    by (auto simp: Flag_M process_flag_def v Let_def fail_exit_not_Cont failure_not_Cont
                   args_set_def split: if_splits)
qed (use assms in \<open>auto simp: process_flag_def Let_def fail_exit_not_Cont usage_def
                     args_set_def emit_def split: if_splits\<close>)

lemma process_flag_loop_args:
  "args_set st \<Longrightarrow> process_flag_loop cfg w fs st = Cont st' \<Longrightarrow> args_set st'"
proof (induction fs arbitrary: st)
  case Nil
  then show ?case by simp
next
  case (Cons f fs)
  from Cons.prems(2) obtain st1 where a: "process_flag cfg w f st = Cont st1"
    and b: "process_flag_loop cfg w fs st1 = Cont st'"
    by (auto simp: seq_def split: outcome.splits)
  from Cons.IH [OF process_flag_args [OF Cons.prems(1) a] b] show ?case .
qed

lemma process_flags_args:
  assumes "args_set st" and "process_flags cfg w args st = Cont st'"
  shows "args_set st' \<and> group_nm st' \<noteq> None"
proof -
  from assms(2) obtain st1 where a: "process_flag_loop cfg w (flags args) st = Cont st1"
    and b: "check_flags cfg (argc args) (optind args)
              (st1\<lparr>group_nm := (case operands args of [] \<Rightarrow> None | g # _ \<Rightarrow> Some g)\<rparr>) = Cont st'"
    by (auto simp: process_flags_def seq_def split: outcome.splits)
  from process_flag_loop_args [OF assms(1) a] have "args_set st1" .
  with b show ?thesis
    by (auto simp: check_flags_def usage_def Let_def args_set_def split: if_splits)
qed


lemma keeps_args_simps:
  "keeps_args a a"
  "keeps_args a (emit e b) = keeps_args a b"
  "keeps_args a (b\<lparr>grent := gr\<rparr>) = keeps_args a b"
  "keeps_args a (b\<lparr>sgent := sg\<rparr>) = keeps_args a b"
  "keeps_args a (synthesize_sgrp cfg g b) = keeps_args a b"
  by (simp_all add: keeps_args_def emit_def synthesize_sgrp_def Let_def split: list.splits)

lemma get_group_keeps_args:
  "get_group cfg w st = Cont st' \<Longrightarrow> keeps_args st st'"
  by (auto simp: get_group_def Let_def keeps_args_simps fail_exit_not_Cont failure_not_Cont
           split: option.splits if_splits)

lemma failure_not_UB: "failure cfg w b \<noteq> Undefined_behaviour"
  by (simp add: failure_def fail_exit_not_UB)

lemma get_group_not_UB:
  "group_nm st \<noteq> None \<Longrightarrow> get_group cfg w st \<noteq> Undefined_behaviour"
  by (auto simp: get_group_def Let_def emit_def fail_exit_not_UB failure_not_UB
           split: option.splits)

lemma check_perms_Cont: "check_perms cfg w st = Cont st' \<Longrightarrow> st' = st"
  by (auto simp: check_perms_def failure_not_Cont split: option.splits list.splits if_splits)

lemma check_perms_not_UB:
  "myname st \<noteq> None \<Longrightarrow> check_perms cfg w st \<noteq> Undefined_behaviour"
  by (auto simp: check_perms_def failure_not_UB split: option.splits list.splits)

lemma change_passwd_not_UB: "change_passwd cfg w st \<noteq> Undefined_behaviour"
proof -
  define st0 where "st0 = emit (Stdout (Changing_password_for (group_nm st))) (st\<lparr>retries := 0\<rparr>)"
  from change_passwd_loop_bound [where cfg = cfg and w = w and st = st0]
  show ?thesis
    by (cases "change_passwd_loop cfg w st0")
       (simp_all add: change_passwd_def st0_def [symmetric] seq_simps fail_exit_not_UB Let_def)
qed

lemma operation_not_UB:
  assumes "args_set st" and "group_nm st \<noteq> None"
  shows "operation cfg w st \<noteq> Undefined_behaviour"
proof -
  from assms(2) obtain g where g: "group_nm st = Some g" by auto
  show ?thesis
  proof (cases "rflg st \<or> Rflg st")
    case True
    then show ?thesis by (auto simp: operation_def Let_def)
  next
    case nr: False
    show ?thesis
    proof (cases "aflg st \<or> dflg st")
      case True
      with assms(1) obtain u where u: "user st = Some u" by (auto simp: args_set_def)
      have gg: "group_nm (emit e st) = Some g" for e by (simp add: emit_def g)
      from nr True show ?thesis
        by (auto simp: operation_def Let_def u g gg fail_exit_not_UB split: prod.splits)
    next
      case False
      define st1 where "st1 = (case admins st of None \<Rightarrow> st
                                | Some a \<Rightarrow> st\<lparr>sgent := (sgent st)\<lparr>sg_adm := comma_to_list w a\<rparr>\<rparr>)"
      have m1: "Mflg st1 = Mflg st" "members st1 = members st" "Aflg st1 = Aflg st"
        by (simp_all add: st1_def split: option.splits)
      have first: "(if SHADOWGRP cfg \<and> Aflg st then
               (case admins st of
                  None \<Rightarrow> Undefined_behaviour
                | Some a \<Rightarrow> Cont (st\<lparr>sgent := (sgent st)\<lparr>sg_adm := comma_to_list w a\<rparr>\<rparr>))
             else Cont st) = Cont (if SHADOWGRP cfg \<and> Aflg st then st1 else st)"
        using assms(1) by (auto simp: args_set_def st1_def)
      have second: "(if SHADOWGRP cfg \<and> Aflg s \<and> \<not> Mflg s then Cont s
             else if Mflg s then
               (case members s of
                  None \<Rightarrow> Undefined_behaviour
                | Some m \<Rightarrow>
                    (let st2 = (if SHADOWGRP cfg
                                then s\<lparr>sgent := (sgent s)\<lparr>sg_mem := comma_to_list w m\<rparr>\<rparr>
                                else s)
                     in Cont (st2\<lparr>grent := (grent st2)\<lparr>gr_mem := comma_to_list w m\<rparr>\<rparr>)))
             else
               (let st2 = emit (Isatty 0 (isatty w 0)) s;
                    st3 = (if isatty w 0 then emit (Isatty 1 (isatty w 1)) st2 else st2)
                in if \<not> isatty w 0 \<or> \<not> isatty w 1
                   then fail_exit cfg w 1 (emit (Stderr Not_a_tty) st3)
                   else change_passwd cfg w
                          (emit Install_signal_handlers (emit Save_tty st3))))
            \<noteq> Undefined_behaviour"
        if "Mflg s \<longrightarrow> members s \<noteq> None" for s
        using that by (auto simp: Let_def fail_exit_not_UB change_passwd_not_UB)
      have ms: "Mflg (if SHADOWGRP cfg \<and> Aflg st then st1 else st) \<longrightarrow>
                members (if SHADOWGRP cfg \<and> Aflg st then st1 else st) \<noteq> None"
        using assms(1) m1 by (simp add: args_set_def)
      from nr False have fl: "\<not> rflg st" "\<not> Rflg st" "\<not> aflg st" "\<not> dflg st"
        by simp_all
      show ?thesis
        unfolding operation_def
        by (simp only: fl if_False first seq_simps second [OF ms] not_False_eq_True)
    qed
  qed
qed

lemma open_files_not_UB: "open_files cfg w st \<noteq> Undefined_behaviour"
  by (simp add: open_files_def Let_def seq_simps fail_exit_not_UB)

lemma update_group_not_UB: "update_group cfg w st \<noteq> Undefined_behaviour"
  by (simp add: update_group_def Let_def fail_exit_not_UB)

lemma close_files_not_UB: "close_files cfg w st \<noteq> Undefined_behaviour"
  by (simp add: close_files_def Let_def seq_simps fail_exit_not_UB)

lemma output_phase_Exit: "\<exists>s st'. output_phase cfg w st = Exit s st'"
proof (cases "setuid0 w")
  case False
  then show ?thesis by (simp add: output_phase_def Let_def fail_exit_def)
next
  case True
  define st1 where "st1 = emit Pwd_init (emit (Setuid0 True) st)"
  have eq: "output_phase cfg w st =
              seq (open_files cfg w st1)
                (\<lambda>st2. seq (update_group cfg w st2)
                   (\<lambda>st3. seq (close_files cfg w st3)
                      (\<lambda>st4. Exit (E_SUCCESS cfg) (emit Nscd_flush_cache st4))))"
    using True by (simp add: output_phase_def st1_def Let_def)
  show ?thesis
  proof (cases "open_files cfg w st1")
    case (Cont st2)
    show ?thesis
    proof (cases "update_group cfg w st2")
      case c3: (Cont st3)
      show ?thesis
        using Cont c3 close_files_not_UB [of cfg w st3]
        by (cases "close_files cfg w st3") (simp_all add: eq seq_simps)
    qed (use Cont update_group_not_UB [of cfg w st2] in \<open>simp_all add: eq seq_simps\<close>)
  qed (use open_files_not_UB [of cfg w st1] in \<open>simp_all add: eq seq_simps\<close>)
qed


lemma keeps_args_set:
  "keeps_args a b \<Longrightarrow> args_set b = args_set a"
  by (simp add: keeps_args_def args_set_def)

lemma main_exits: "\<exists>s st'. main cfg w args gr0 sg0 = Exit s st'"
proof -
  define st2 where "st2 = (if SHADOWGRP cfg
      then (initial_state cfg gr0 sg0)\<lparr>bywho := getuid w, is_shadowgrp := sgr_file_present w\<rparr>
      else (initial_state cfg gr0 sg0)\<lparr>bywho := getuid w\<rparr>)"
  have s2: "unlocked st2" "args_set st2"
    by (simp_all add: st2_def unlocked_def args_set_def initial_state_def)
  have m: "main cfg w args gr0 sg0 =
             seq (process_flags cfg w args st2)
               (\<lambda>st3. case get_my_pwent w of
                  None \<Rightarrow> failure cfg w (emit (Stderr Who_are_you) st3)
                | Some name \<Rightarrow>
                    seq (get_group cfg w (st3\<lparr>myname := Some name\<rparr>))
                      (\<lambda>st4. seq (check_perms cfg w st4)
                         (\<lambda>st5. seq (operation cfg w st5) (output_phase cfg w))))"
    by (simp add: main_def main_from_def st2_def Let_def)
  show ?thesis
  proof (cases "process_flags cfg w args st2")
    case (Exit s st')
    then show ?thesis by (simp add: m seq_simps)
  next
    case Undefined_behaviour
    with process_flags_cases [OF s2(1), where cfg = cfg and w = w and args = args]
    show ?thesis by simp
  next
    case (Cont st3)
    from process_flags_args [OF s2(2) Cont] have a3: "args_set st3" "group_nm st3 \<noteq> None"
      by simp_all
    show ?thesis
    proof (cases "get_my_pwent w")
      case None
      with Cont failure_denied [of cfg w "emit (Stderr Who_are_you) st3"] show ?thesis
        by (auto simp: m seq_simps)
    next
      case (Some name)
      define st3' where "st3' = st3\<lparr>myname := Some name\<rparr>"
      have a3': "args_set st3'" "group_nm st3' \<noteq> None" "myname st3' \<noteq> None"
        using a3 by (simp_all add: st3'_def args_set_def)
      have m2: "main cfg w args gr0 sg0 =
                  seq (get_group cfg w st3')
                    (\<lambda>st4. seq (check_perms cfg w st4)
                       (\<lambda>st5. seq (operation cfg w st5) (output_phase cfg w)))"
        using Cont Some by (simp add: m seq_simps st3'_def)
      show ?thesis
      proof (cases "get_group cfg w st3'")
        case (Exit s st')
        then show ?thesis by (simp add: m2 seq_simps)
      next
        case Undefined_behaviour
        with get_group_not_UB [OF a3'(2), of cfg w] show ?thesis by simp
      next
        case c4: (Cont st4)
        from get_group_keeps_args [OF c4] a3'
        have a4: "args_set st4" "group_nm st4 \<noteq> None" "myname st4 \<noteq> None"
          by (simp_all add: keeps_args_set) (simp_all add: keeps_args_def)
        show ?thesis
        proof (cases "check_perms cfg w st4")
          case (Exit s st')
          with c4 show ?thesis by (simp add: m2 seq_simps)
        next
          case Undefined_behaviour
          with check_perms_not_UB [OF a4(3), of cfg w] show ?thesis by simp
        next
          case c5: (Cont st5)
          from check_perms_Cont [OF c5] have e5: "st5 = st4" .
          show ?thesis
          proof (cases "operation cfg w st4")
            case (Exit s st')
            with c4 c5 e5 show ?thesis by (simp add: m2 seq_simps)
          next
            case Undefined_behaviour
            with operation_not_UB [OF a4(1) a4(2), of cfg w] show ?thesis by simp
          next
            case c6: (Cont st6)
            with c4 c5 e5 output_phase_Exit [of cfg w st6] show ?thesis
              by (simp add: m2 seq_simps)
          qed
        qed
      qed
    qed
  qed
qed

lemma main_locks_released:
  "locks_held (False, False) (outcome_trace (main cfg w args gr0 sg0)) = (False, False)"
proof -
  define st0 where "st0 = initial_state cfg gr0 sg0"
  have u0: "unlocked st0" and t0: "trace st0 = []"
    by (simp_all add: st0_def initial_state_def unlocked_def)
  have m: "main cfg w args gr0 sg0 = seq (load_and_operate cfg w args st0) (output_phase cfg w)"
    by (simp add: main_def main_split st0_def)
  note l = load_and_operate_pre [OF u0, of cfg w args]
  show ?thesis
  proof (cases "load_and_operate cfg w args st0")
    case (Exit s st')
    with l t0 have "list_all pre_event (trace st')"
      by (simp add: out_ok_Cont pre_ok_def extends_def)
    with Exit show ?thesis
      by (simp add: m seq_simps outcome_trace_def locks_held_pre)
  next
    case Undefined_behaviour
    then show ?thesis by (simp add: m seq_simps outcome_trace_def)
  next
    case (Cont st1)
    with l t0 have p: "list_all pre_event (trace st1)" and u1: "unlocked st1"
      by (simp_all add: out_ok_Cont pre_ok_def extends_def)
    then have "lock_inv cfg st1"
      by (simp add: lock_inv_def flags_track_locks_def locks_held_pre unlocked_def)
    from output_phase_locks [OF this u1, of w] Cont show ?thesis
      by (simp add: m seq_simps)
  qed
qed

lemma open_files_held:
  assumes "locks_held (False, False) (trace st) = (False, False)" and "unlocked st"
  shows "case open_files cfg w st of
           Exit s st' \<Rightarrow> locks_held (False, False) (trace st') = (False, False)
         | Cont st' \<Rightarrow> locks_held (False, False) (trace st') = (True, shadow_in_use cfg st)
         | Undefined_behaviour \<Rightarrow> False"
  using assms
  by (auto simp: open_files_def fail_exit_def emit_def unlocked_def seq_def locks_held_append
                 shadow_in_use_def Let_def)

text \<open>
  C2. \<open>open_files\<close> always starts with the lock call on the primary store. From a state
  with no lock flag set: if that call fails, \<open>open_files\<close> exits with status 1 after
  the diagnostic, and no call on the shadow store was made; if it succeeds and, with a
  shadow store in use, the lock call on the shadow store fails, \<open>open_files\<close> calls
  the unlock of the primary store and then exits with status 1. Whenever \<open>open_files\<close>
  exits, no lock is held; when it returns, the primary lock is held, and the shadow lock
  exactly when a shadow store is in use. And every run of \<open>main\<close> ends in an exit,
  with no lock held. (A lock counts as given back once the store's unlock has been
  called on it.)
\<close>

theorem lock_protocol:
  "(\<exists>rest. outcome_trace (open_files cfg w st) = trace st @ Gr_lock (gr_lock w) # rest)
   \<and> (unlocked st \<and> \<not> gr_lock w \<longrightarrow>
        (\<exists>st'. open_files cfg w st = Exit 1 st'
           \<and> trace st' = trace st @ [Gr_lock False, Stderr Cannot_lock_group]))
   \<and> (unlocked st \<and> gr_lock w \<and> shadow_in_use cfg st \<and> \<not> sgr_lock w \<longrightarrow>
        (\<exists>st'. open_files cfg w st = Exit 1 st'
           \<and> trace st' = trace st @ [Gr_lock True, Sgr_lock False, Stderr Cannot_lock_gshadow,
                                       Gr_unlock (gr_unlock w)]
                           @ (if gr_unlock w then [] else [Stderr Cannot_unlock_group])))
   \<and> (unlocked st \<and> locks_held (False, False) (trace st) = (False, False) \<longrightarrow>
        (\<forall>s st'. open_files cfg w st = Exit s st' \<longrightarrow>
           locks_held (False, False) (trace st') = (False, False))
        \<and> (\<forall>st'. open_files cfg w st = Cont st' \<longrightarrow>
           locks_held (False, False) (trace st') = (True, shadow_in_use cfg st)))
   \<and> (\<exists>s st'. main cfg w args gr0 sg0 = Exit s st'
         \<and> locks_held (False, False) (trace st') = (False, False))"
proof (intro conjI impI)
  show "\<exists>rest. outcome_trace (open_files cfg w st) = trace st @ Gr_lock (gr_lock w) # rest"
    by (simp add: open_files_def fail_exit_def emit_def seq_def outcome_trace_def Let_def)
next
  assume "unlocked st \<and> \<not> gr_lock w"
  then show "\<exists>st'. open_files cfg w st = Exit 1 st'
           \<and> trace st' = trace st @ [Gr_lock False, Stderr Cannot_lock_group]"
    by (simp add: open_files_def fail_exit_def emit_def unlocked_def Let_def)
next
  assume "unlocked st \<and> gr_lock w \<and> shadow_in_use cfg st \<and> \<not> sgr_lock w"
  then show "\<exists>st'. open_files cfg w st = Exit 1 st'
           \<and> trace st' = trace st @ [Gr_lock True, Sgr_lock False, Stderr Cannot_lock_gshadow,
                                       Gr_unlock (gr_unlock w)]
                           @ (if gr_unlock w then [] else [Stderr Cannot_unlock_group])"
    by (simp add: open_files_def fail_exit_def emit_def unlocked_def shadow_in_use_def seq_def
                  Let_def)
next
  assume a: "unlocked st \<and> locks_held (False, False) (trace st) = (False, False)"
  then have h: "locks_held (False, False) (trace st) = (False, False)" and u: "unlocked st"
    by simp_all
  from open_files_held [OF h u, where cfg = cfg and w = w]
  show "\<forall>s st'. open_files cfg w st = Exit s st' \<longrightarrow>
           locks_held (False, False) (trace st') = (False, False)"
    and "\<forall>st'. open_files cfg w st = Cont st' \<longrightarrow>
           locks_held (False, False) (trace st') = (True, shadow_in_use cfg st)"
    by auto
next
  from main_exits [of cfg w args gr0 sg0] obtain s st' where
    e: "main cfg w args gr0 sg0 = Exit s st'" by blast
  with main_locks_released [of cfg w args gr0 sg0]
  show "\<exists>s st'. main cfg w args gr0 sg0 = Exit s st'
         \<and> locks_held (False, False) (trace st') = (False, False)"
    by (simp add: outcome_trace_def)
qed

theorem lock_protocol_witness:
  "(\<exists>st'. open_files ex_cfg ex_world_group_busy (ex_loaded ''root'' 0) = Exit 1 st'
      \<and> trace st' = [Gr_lock False, Stderr Cannot_lock_group])
   \<and> (\<exists>st'. open_files ex_cfg ex_world_shadow_busy (ex_loaded ''root'' 0) = Exit 1 st'
      \<and> trace st' = [Gr_lock True, Sgr_lock False, Stderr Cannot_lock_gshadow, Gr_unlock True]
      \<and> locks_held (False, False) (trace st') = (False, False))
   \<and> (\<exists>st'. open_files ex_cfg ex_world (ex_loaded ''root'' 0) = Cont st'
      \<and> locks_held (False, False) (trace st') = (True, True))"
proof -
  let ?st = "ex_loaded ''root'' 0"
  have u: "unlocked ?st" and t: "trace ?st = []" and s: "shadow_in_use ex_cfg ?st"
    by (simp_all add: ex_loaded_def initial_state_def unlocked_def shadow_in_use_def ex_cfg_def)
  have h: "locks_held (False, False) (trace ?st) = (False, False)"
    by (simp add: t)
  have w: "\<not> gr_lock ex_world_group_busy" "gr_lock ex_world_shadow_busy"
    "\<not> sgr_lock ex_world_shadow_busy" "gr_unlock ex_world_shadow_busy"
    by (simp_all add: ex_world_group_busy_def ex_world_shadow_busy_def ex_world_def)
  from lock_protocol [of ex_cfg ex_world_group_busy ?st "ex_args_r ''eng''" ex_gr0 ex_sg0] u w
  have 1: "\<exists>st'. open_files ex_cfg ex_world_group_busy ?st = Exit 1 st'
      \<and> trace st' = trace ?st @ [Gr_lock False, Stderr Cannot_lock_group]"
    by blast
  from lock_protocol [of ex_cfg ex_world_shadow_busy ?st "ex_args_r ''eng''" ex_gr0 ex_sg0]
       u w s
  have 2: "\<exists>st'. open_files ex_cfg ex_world_shadow_busy ?st = Exit 1 st'
      \<and> trace st' = trace ?st @ [Gr_lock True, Sgr_lock False, Stderr Cannot_lock_gshadow,
                                   Gr_unlock (gr_unlock ex_world_shadow_busy)]
                      @ (if gr_unlock ex_world_shadow_busy then []
                         else [Stderr Cannot_unlock_group])"
    by blast
  from lock_protocol [of ex_cfg ex_world ?st "ex_args_r ''eng''" ex_gr0 ex_sg0] u h
  have 3: "\<forall>st'. open_files ex_cfg ex_world ?st = Cont st' \<longrightarrow>
         locks_held (False, False) (trace st') = (True, shadow_in_use ex_cfg ?st)"
    by blast
  have "\<exists>st'. open_files ex_cfg ex_world ?st = Cont st'"
    by (simp add: open_files_def seq_def Let_def ex_world_def ex_loaded_def initial_state_def
                  ex_cfg_def emit_def)
  with 3 s have 4: "\<exists>st'. open_files ex_cfg ex_world ?st = Cont st'
      \<and> locks_held (False, False) (trace st') = (True, True)"
    by auto
  from 1 2 4 show ?thesis
    by (auto simp: t w)
qed

section \<open>The order of the commit step\<close>

lemma commit_run_None: "commit_run sh None es = None"
  by (cases es) simp_all

lemma commit_run_append:
  "commit_run sh s (xs @ ys) = commit_run sh (commit_run sh s xs) ys"
proof (induction xs arbitrary: s)
  case Nil
  then show ?case by simp
next
  case (Cons e xs)
  then show ?case by (cases s) (simp_all add: commit_run_None)
qed

lemma prefix_of_self: "prefix_of st st"
  by (simp add: prefix_of_def)

lemma stage_of_self: "stage_of sh st st = Some (Start, False)"
  by (simp add: stage_of_def new_events_def)

lemma prefix_of_iff: "prefix_of st0 st \<longleftrightarrow> (\<exists>ext. trace st = trace st0 @ ext)"
proof
  assume "prefix_of st0 st"
  then have "trace st = trace st0 @ drop (length (trace st0)) (trace st)"
    by (simp add: prefix_of_def) (metis append_take_drop_id)
  then show "\<exists>ext. trace st = trace st0 @ ext" ..
next
  assume "\<exists>ext. trace st = trace st0 @ ext"
  then show "prefix_of st0 st" by (auto simp: prefix_of_def)
qed

lemma prefix_of_emit: "prefix_of st0 st \<Longrightarrow> prefix_of st0 (emit e st)"
  by (auto simp: prefix_of_iff emit_def)

lemma stage_of_emit:
  "prefix_of st0 st \<Longrightarrow> stage_of sh st0 (emit e st) = commit_run sh (stage_of sh st0 st) [e]"
  by (auto simp: prefix_of_iff stage_of_def new_events_def emit_def commit_run_append)

lemma commit_update:
  "prefix_of st0 (st\<lparr>group_locked := x\<rparr>) = prefix_of st0 st"
  "prefix_of st0 (st\<lparr>gshadow_locked := x\<rparr>) = prefix_of st0 st"
  "stage_of sh st0 (st\<lparr>group_locked := x\<rparr>) = stage_of sh st0 st"
  "stage_of sh st0 (st\<lparr>gshadow_locked := x\<rparr>) = stage_of sh st0 st"
  by (simp_all add: prefix_of_def stage_of_def new_events_def)

lemma emit_sel:
  "group_locked (emit e st) = group_locked st"
  "gshadow_locked (emit e st) = gshadow_locked st"
  "is_shadowgrp (emit e st) = is_shadowgrp st"
  "grent (emit e st) = grent st"
  "sgent (emit e st) = sgent st"
  by (simp_all add: emit_def)

lemma commit_run_one: "commit_run sh (Some s) [e] = commit_step sh s e"
  by simp

text \<open>What \<open>fail_exit\<close> adds is in order, whatever stage the locks were taken at.\<close>

lemma fail_exit_order:
  assumes "prefix_of st0 st" and "stage_of sh st0 st = Some (stg, rel)"
    and "group_locked st \<longrightarrow> stg \<noteq> Start"
    and "gshadow_locked st \<longrightarrow> sh \<and> stg \<noteq> Start \<and> stg \<noteq> G_locked"
  shows "\<exists>st'. fail_exit cfg w s st = Exit s st' \<and> prefix_of st0 st'
           \<and> stage_of sh st0 st' \<noteq> None"
  using assms
  by (auto simp: fail_exit_def Let_def prefix_of_emit stage_of_emit emit_sel)

lemma open_files_order:
  assumes "prefix_of st0 st" and "stage_of sh st0 st = Some (Start, False)"
    and "unlocked st" and "sh = shadow_in_use cfg st"
  shows "case open_files cfg w st of
           Exit s st' \<Rightarrow> prefix_of st0 st' \<and> stage_of sh st0 st' \<noteq> None
         | Cont st' \<Rightarrow> prefix_of st0 st'
             \<and> stage_of sh st0 st' = Some (if sh then S_open else G_open, False)
             \<and> group_locked st' \<and> gshadow_locked st' = sh
             \<and> is_shadowgrp st' = is_shadowgrp st
         | Undefined_behaviour \<Rightarrow> False"
  using assms
  by (auto simp: open_files_def fail_exit_def Let_def seq_def unlocked_def shadow_in_use_def
                 prefix_of_emit stage_of_emit emit_sel commit_update)


lemma update_group_order:
  assumes "prefix_of st0 st" and "stage_of sh st0 st = Some (if sh then S_open else G_open, False)"
    and "group_locked st" and "gshadow_locked st = sh" and "sh = shadow_in_use cfg st"
  shows "case update_group cfg w st of
           Exit s st' \<Rightarrow> prefix_of st0 st' \<and> stage_of sh st0 st' \<noteq> None
         | Cont st' \<Rightarrow> prefix_of st0 st'
             \<and> stage_of sh st0 st' = Some (if sh then S_written else G_written, False)
             \<and> group_locked st' \<and> gshadow_locked st' = sh
             \<and> is_shadowgrp st' = is_shadowgrp st
         | Undefined_behaviour \<Rightarrow> False"
  using assms
  by (auto simp: update_group_def fail_exit_def Let_def shadow_in_use_def
                 prefix_of_emit stage_of_emit emit_sel)

lemma close_files_order:
  assumes "prefix_of st0 st"
    and "stage_of sh st0 st = Some (if sh then S_written else G_written, False)"
    and "group_locked st" and "gshadow_locked st = sh" and "sh = shadow_in_use cfg st"
  shows "case close_files cfg w st of
           Exit s st' \<Rightarrow> prefix_of st0 st' \<and> stage_of sh st0 st' \<noteq> None
         | Cont st' \<Rightarrow> prefix_of st0 st'
             \<and> stage_of sh st0 st' = Some (if sh then S_closed else G_closed, True)
         | Undefined_behaviour \<Rightarrow> False"
  using assms
  by (auto simp: close_files_def fail_exit_def Let_def seq_def shadow_in_use_def
                 prefix_of_emit stage_of_emit emit_sel commit_update)

lemma output_phase_order:
  assumes "unlocked st"
  shows "\<exists>s st'. output_phase cfg w st = Exit s st' \<and> prefix_of st st'
           \<and> stage_of (shadow_in_use cfg st) st st' \<noteq> None"
proof (cases "setuid0 w")
  case False
  with assms show ?thesis
    by (auto simp: output_phase_def Let_def fail_exit_def unlocked_def emit_sel
                   prefix_of_emit prefix_of_self stage_of_emit stage_of_self)
next
  case True
  let ?sh = "shadow_in_use cfg st"
  define st1 where "st1 = emit Pwd_init (emit (Setuid0 True) st)"
  have p1: "prefix_of st st1" and g1: "stage_of ?sh st st1 = Some (Start, False)"
    and u1: "unlocked st1" and s1: "?sh = shadow_in_use cfg st1"
    using assms
    by (simp_all add: st1_def prefix_of_emit prefix_of_self stage_of_emit stage_of_self
                      unlocked_def shadow_in_use_def emit_sel)
  have eq: "output_phase cfg w st =
              seq (open_files cfg w st1)
                (\<lambda>st2. seq (update_group cfg w st2)
                   (\<lambda>st3. seq (close_files cfg w st3)
                      (\<lambda>st4. Exit (E_SUCCESS cfg) (emit Nscd_flush_cache st4))))"
    using True by (simp add: output_phase_def st1_def Let_def)
  note o = open_files_order [OF p1 g1 u1 s1, where w = w]
  show ?thesis
  proof (cases "open_files cfg w st1")
    case (Exit s st')
    with o show ?thesis by (simp add: eq seq_simps)
  next
    case Undefined_behaviour
    with o show ?thesis by simp
  next
    case (Cont st2)
    with o have p2: "prefix_of st st2"
      and g2: "stage_of ?sh st st2 = Some (if ?sh then S_open else G_open, False)"
      and l2: "group_locked st2" "gshadow_locked st2 = ?sh"
      and i2: "is_shadowgrp st2 = is_shadowgrp st1"
      by simp_all
    from i2 s1 have s2: "?sh = shadow_in_use cfg st2" by (simp add: shadow_in_use_def)
    note u = update_group_order [OF p2 g2 l2 s2, where w = w]
    show ?thesis
    proof (cases "update_group cfg w st2")
      case (Exit s st')
      with u Cont show ?thesis by (simp add: eq seq_simps)
    next
      case Undefined_behaviour
      with u show ?thesis by simp
    next
      case c3: (Cont st3)
      with u have p3: "prefix_of st st3"
        and g3: "stage_of ?sh st st3 = Some (if ?sh then S_written else G_written, False)"
        and l3: "group_locked st3" "gshadow_locked st3 = ?sh"
        and i3: "is_shadowgrp st3 = is_shadowgrp st2"
        by simp_all
      from i3 s2 have s3: "?sh = shadow_in_use cfg st3" by (simp add: shadow_in_use_def)
      note c = close_files_order [OF p3 g3 l3 s3, where w = w]
      show ?thesis
      proof (cases "close_files cfg w st3")
        case (Exit s st')
        with c Cont c3 show ?thesis by (simp add: eq seq_simps)
      next
        case Undefined_behaviour
        with c show ?thesis by simp
      next
        case c4: (Cont st4)
        with c have p4: "prefix_of st st4"
          and g4: "stage_of ?sh st st4 = Some (if ?sh then S_closed else G_closed, True)"
          by simp_all
        from p4 g4 Cont c3 c4 show ?thesis
          by (auto simp: eq seq_simps prefix_of_emit stage_of_emit)
      qed
    qed
  qed
qed

lemma output_phase_commit_order:
  assumes "unlocked st"
  shows "\<exists>s st' post. output_phase cfg w st = Exit s st' \<and> trace st' = trace st @ post
           \<and> commit_order (shadow_in_use cfg st) post"
proof -
  from output_phase_order [OF assms, of cfg w] obtain s st' where
    e: "output_phase cfg w st = Exit s st'" and p: "prefix_of st st'"
    and g: "stage_of (shadow_in_use cfg st) st st' \<noteq> None"
    by blast
  from p have "trace st' = trace st @ new_events st st'"
    by (auto simp: prefix_of_iff new_events_def)
  with e g show ?thesis
    by (auto simp: commit_order_def stage_of_def)
qed


lemma load_and_operate_Cont:
  assumes "load_and_operate cfg w args st0 = Cont st5"
  shows "\<exists>st3 name st4.
           process_flags cfg w args (startup cfg w st0) = Cont st3
         \<and> get_my_pwent w = Some name
         \<and> get_group cfg w (st3\<lparr>myname := Some name\<rparr>) = Cont st4
         \<and> check_perms cfg w st4 = Cont st4
         \<and> operation cfg w st4 = Cont st5"
proof -
  from assms obtain st3 name st4 st4' where
    a: "process_flags cfg w args (startup cfg w st0) = Cont st3"
    and n: "get_my_pwent w = Some name"
    and b: "get_group cfg w (st3\<lparr>myname := Some name\<rparr>) = Cont st4"
    and c: "check_perms cfg w st4 = Cont st4'"
    and d: "operation cfg w st4' = Cont st5"
    by (auto simp: load_and_operate_def startup_def seq_def Let_def failure_not_Cont
             split: outcome.splits option.splits)
  from check_perms_Cont [OF c] have "st4' = st4" .
  with a n b c d show ?thesis by blast
qed

text \<open>What a stage of the automaton says about the events that led to it.\<close>

lemma commit_run_history:
  "commit_run sh (Some (Start, False)) pre = Some (stg, rel) \<Longrightarrow>
     (stg \<noteq> Start \<longrightarrow> Gr_lock True \<in> set pre)
     \<and> (sh \<and> stg \<noteq> Start \<and> stg \<noteq> G_locked \<longrightarrow> Sgr_lock True \<in> set pre)
     \<and> (\<not> rel \<longrightarrow> \<not> list_ex is_unlock_event pre)"
proof (induction pre arbitrary: stg rel rule: rev_induct)
  case Nil
  then show ?case by simp
next
  case (snoc e pre)
  from snoc.prems obtain stg0 rel0 where
    r: "commit_run sh (Some (Start, False)) pre = Some (stg0, rel0)"
    and st: "commit_step sh (stg0, rel0) e = Some (stg, rel)"
    by (cases "commit_run sh (Some (Start, False)) pre") (auto simp: commit_run_append)
  from snoc.IH [OF r] st show ?case
    by (cases e) (auto split: if_splits)
qed

lemma commit_order_under_locks:
  assumes "commit_order sh (pre @ e # rest)" and "is_write_event e"
  shows "Gr_lock True \<in> set pre \<and> (sh \<longrightarrow> Sgr_lock True \<in> set pre)
         \<and> \<not> list_ex is_unlock_event pre"
proof -
  from assms(1)
  have a: "commit_run sh (commit_run sh (Some (Start, False)) pre) (e # rest) \<noteq> None"
    by (simp add: commit_order_def commit_run_append)
  then obtain stg rel where r: "commit_run sh (Some (Start, False)) pre = Some (stg, rel)"
    by (cases "commit_run sh (Some (Start, False)) pre") (auto simp: commit_run_None)
  with a have "commit_run sh (commit_step sh (stg, rel) e) rest \<noteq> None" by simp
  then have st: "commit_step sh (stg, rel) e \<noteq> None"
    by (cases "commit_step sh (stg, rel) e") (simp_all add: commit_run_None)
  from st assms(2) have "\<not> rel" and "stg \<noteq> Start" and "sh \<longrightarrow> stg \<noteq> G_locked"
    by (cases e; auto split: if_splits)+
  with commit_run_history [OF r] show ?thesis by auto
qed

lemma commit_order_events:
  assumes "commit_order sh post"
  shows "list_all commit_event post \<and> Stderr Permission_denied \<notin> set post"
proof -
  have "commit_run sh (Some s) post \<noteq> None \<Longrightarrow>
          list_all commit_event post \<and> Stderr Permission_denied \<notin> set post" for s
  proof (induction post arbitrary: s)
    case Nil
    then show ?case by simp
  next
    case (Cons e post)
    obtain stg rel where s: "s = (stg, rel)" by (cases s)
    from Cons.prems obtain s' where st: "commit_step sh (stg, rel) e = Some s'"
      and r: "commit_run sh (Some s') post \<noteq> None"
      by (cases "commit_step sh (stg, rel) e") (auto simp: s commit_run_None)
    from st have "commit_event e \<and> e \<noteq> Stderr Permission_denied"
      by (cases e) (auto split: if_splits mode.splits)
    with Cons.IH [OF r] show ?case by auto
  qed
  with assms show ?thesis by (simp add: commit_order_def)
qed

text \<open>A commit that wrote before it locked would not be in order.\<close>

lemma commit_order_rejects_update_before_lock:
  "\<not> commit_order sh (Gr_update gr True # Gr_lock True # rest)"
  by (simp add: commit_order_def commit_run_None)

text \<open>
  C3, as the code has it. Every run of \<open>main\<close> ends in an exit, in one of two ways.
  Either it ends in the first half: then no lock flag is set and no lock call, no
  opening for writing and no update was ever made. Or the flags were processed, the
  record pair was loaded by \<open>get_group\<close>, \<open>check_perms\<close> allowed the caller and the
  operation was applied to the in-memory pair, all of it with no lock flag set and no
  lock call made, and only then \<open>output_phase\<close> ran, from the state the operation left.
  What \<open>output_phase\<close> adds to the trace is in the order of the commit step: the lock
  on the primary store, then on the shadow store, then the opening for writing, the
  updates, the closing and the unlocking, with nothing of the first half (no loading, no
  prompt, no "Permission denied") among it. In particular each opening for writing,
  update and close comes after the successful lock call or calls and before any unlock.
\<close>

theorem loading_precedes_locking:
  "\<exists>s st'. main cfg w args gr0 sg0 = Exit s st'
     \<and> ((unlocked st' \<and> list_all pre_event (trace st'))
        \<or> (\<exists>st3 name st4 st5 post.
              process_flags cfg w args (startup cfg w (initial_state cfg gr0 sg0)) = Cont st3
            \<and> get_my_pwent w = Some name
            \<and> get_group cfg w (st3\<lparr>myname := Some name\<rparr>) = Cont st4
            \<and> check_perms cfg w st4 = Cont st4
            \<and> operation cfg w st4 = Cont st5
            \<and> unlocked st5 \<and> list_all pre_event (trace st5) \<and> list_ex is_locate (trace st5)
            \<and> output_phase cfg w st5 = Exit s st'
            \<and> trace st' = trace st5 @ post
            \<and> commit_order (shadow_in_use cfg st5) post
            \<and> Stderr Permission_denied \<notin> set post
            \<and> (\<forall>pre e rest. post = pre @ e # rest \<and> is_write_event e \<longrightarrow>
                   Gr_lock True \<in> set pre
                   \<and> (shadow_in_use cfg st5 \<longrightarrow> Sgr_lock True \<in> set pre)
                   \<and> \<not> list_ex is_unlock_event pre)))"
proof -
  define st0 where "st0 = initial_state cfg gr0 sg0"
  have u0: "unlocked st0" and t0: "trace st0 = []"
    by (simp_all add: st0_def initial_state_def unlocked_def)
  have m: "main cfg w args gr0 sg0 = seq (load_and_operate cfg w args st0) (output_phase cfg w)"
    by (simp add: main_def main_split st0_def)
  note l = load_and_operate_pre [OF u0, of cfg w args]
  show ?thesis
  proof (cases "load_and_operate cfg w args st0")
    case (Exit s st')
    with l t0 have "unlocked st'" and "list_all pre_event (trace st')"
      by (simp_all add: out_ok_Cont pre_ok_def extends_def)
    with Exit show ?thesis
      by (simp add: m seq_simps)
  next
    case Undefined_behaviour
    with main_exits [of cfg w args gr0 sg0] show ?thesis
      by (simp add: m seq_simps)
  next
    case (Cont st5)
    with l t0 have p: "list_all pre_event (trace st5)" and u5: "unlocked st5"
      by (simp_all add: out_ok_Cont pre_ok_def extends_def)
    from load_and_operate_located [OF u0 Cont] have loc: "list_ex is_locate (trace st5)" .
    from load_and_operate_Cont [OF Cont] obtain st3 name st4 where
      d: "process_flags cfg w args (startup cfg w st0) = Cont st3"
         "get_my_pwent w = Some name"
         "get_group cfg w (st3\<lparr>myname := Some name\<rparr>) = Cont st4"
         "check_perms cfg w st4 = Cont st4"
         "operation cfg w st4 = Cont st5"
      by blast
    from output_phase_commit_order [OF u5, of cfg w] obtain s st' post where
      o: "output_phase cfg w st5 = Exit s st'" "trace st' = trace st5 @ post"
         "commit_order (shadow_in_use cfg st5) post"
      by blast
    from Cont o(1) have e: "main cfg w args gr0 sg0 = Exit s st'"
      by (simp add: m seq_simps)
    from commit_order_events [OF o(3)] have nd: "Stderr Permission_denied \<notin> set post"
      by simp
    have ul: "\<forall>pre e rest. post = pre @ e # rest \<and> is_write_event e \<longrightarrow>
                   Gr_lock True \<in> set pre
                   \<and> (shadow_in_use cfg st5 \<longrightarrow> Sgr_lock True \<in> set pre)
                   \<and> \<not> list_ex is_unlock_event pre"
      using commit_order_under_locks o(3) by blast
    from e d p u5 loc o nd ul show ?thesis
      unfolding st0_def by blast
  qed
qed

theorem loading_precedes_locking_witness:
  "\<exists>s st' st3 name st4 st5 post.
      main ex_cfg ex_world (ex_args_r ''eng'') ex_gr0 ex_sg0 = Exit s st'
    \<and> process_flags ex_cfg ex_world (ex_args_r ''eng'')
          (startup ex_cfg ex_world (initial_state ex_cfg ex_gr0 ex_sg0)) = Cont st3
    \<and> get_my_pwent ex_world = Some name
    \<and> get_group ex_cfg ex_world (st3\<lparr>myname := Some name\<rparr>) = Cont st4
    \<and> check_perms ex_cfg ex_world st4 = Cont st4
    \<and> operation ex_cfg ex_world st4 = Cont st5
    \<and> list_all pre_event (trace st5) \<and> list_ex is_locate (trace st5)
    \<and> output_phase ex_cfg ex_world st5 = Exit s st'
    \<and> trace st' = trace st5 @ post
    \<and> commit_order (shadow_in_use ex_cfg st5) post
    \<and> Gr_lock True \<in> set post"
proof -
  let ?m = "main ex_cfg ex_world (ex_args_r ''eng'') ex_gr0 ex_sg0"
  have g: "Gr_lock True \<in> set (outcome_trace ?m)"
    by (simp add: main_def main_from_def process_flags_def process_flag_def check_flags_def
                  argc_def get_group_def check_perms_def operation_def output_phase_def
                  open_files_def update_group_def close_files_def seq_def
                  emit_def amroot_def dup_list_def initial_state_def
                  ex_cfg_def ex_world_def ex_args_r_def ex_gr_def ex_sg_def
                  outcome_trace_def Let_def)
  from loading_precedes_locking [of ex_cfg ex_world "ex_args_r ''eng''" ex_gr0 ex_sg0]
  obtain s st' where e: "?m = Exit s st'"
    and d: "(unlocked st' \<and> list_all pre_event (trace st'))
        \<or> (\<exists>st3 name st4 st5 post.
              process_flags ex_cfg ex_world (ex_args_r ''eng'')
                 (startup ex_cfg ex_world (initial_state ex_cfg ex_gr0 ex_sg0)) = Cont st3
            \<and> get_my_pwent ex_world = Some name
            \<and> get_group ex_cfg ex_world (st3\<lparr>myname := Some name\<rparr>) = Cont st4
            \<and> check_perms ex_cfg ex_world st4 = Cont st4
            \<and> operation ex_cfg ex_world st4 = Cont st5
            \<and> unlocked st5 \<and> list_all pre_event (trace st5) \<and> list_ex is_locate (trace st5)
            \<and> output_phase ex_cfg ex_world st5 = Exit s st'
            \<and> trace st' = trace st5 @ post
            \<and> commit_order (shadow_in_use ex_cfg st5) post
            \<and> Stderr Permission_denied \<notin> set post
            \<and> (\<forall>pre e rest. post = pre @ e # rest \<and> is_write_event e \<longrightarrow>
                   Gr_lock True \<in> set pre
                   \<and> (shadow_in_use ex_cfg st5 \<longrightarrow> Sgr_lock True \<in> set pre)
                   \<and> \<not> list_ex is_unlock_event pre))"
    by blast
  from g e have gt: "Gr_lock True \<in> set (trace st')" by (simp add: outcome_trace_def)
  then have "\<not> list_all pre_event (trace st')"
    by (auto simp: list_all_iff intro: bexI [of _ "Gr_lock True"])
  with d obtain st3 name st4 st5 post where
    r: "process_flags ex_cfg ex_world (ex_args_r ''eng'')
                 (startup ex_cfg ex_world (initial_state ex_cfg ex_gr0 ex_sg0)) = Cont st3"
       "get_my_pwent ex_world = Some name"
       "get_group ex_cfg ex_world (st3\<lparr>myname := Some name\<rparr>) = Cont st4"
       "check_perms ex_cfg ex_world st4 = Cont st4"
       "operation ex_cfg ex_world st4 = Cont st5"
       "list_all pre_event (trace st5)" "list_ex is_locate (trace st5)"
       "output_phase ex_cfg ex_world st5 = Exit s st'"
       "trace st' = trace st5 @ post"
       "commit_order (shadow_in_use ex_cfg st5) post"
    by blast
  from gt r(9) r(6) have "Gr_lock True \<in> set post" by (auto simp: list_all_iff)
  with e r show ?thesis by blast
qed

text \<open>
  The run \<^verbatim>\<open>gpasswd -r eng\<close> by root, with nothing failing: both stores are opened
  read-only, searched and closed before the first lock call, so the loading is not done
  under the locks.
\<close>

theorem locking_precedes_loading_counterexample:
  "outcome_trace (main ex_cfg ex_world (ex_args_r ''eng'') ex_gr0 ex_sg0) =
     [Gr_open O_RDONLY True, Gr_locate ''eng'', Gr_close True,
      Sgr_open O_RDONLY True, Sgr_locate ''eng'', Sgr_close True,
      Setuid0 True, Pwd_init, Gr_lock True, Sgr_lock True,
      Gr_open O_RDWR True, Sgr_open O_RDWR True,
      Gr_update (ex_gr\<lparr>gr_passwd := []\<rparr>) True, Sgr_update (ex_sg\<lparr>sg_passwd := []\<rparr>) True,
      Gr_close True, Sgr_close True, Sgr_unlock True, Gr_unlock True, Nscd_flush_cache]
   \<and> \<not> loads_under_lock False
        (outcome_trace (main ex_cfg ex_world (ex_args_r ''eng'') ex_gr0 ex_sg0))"
  by (simp add: main_def main_from_def process_flags_def process_flag_def check_flags_def
                argc_def get_group_def check_perms_def operation_def output_phase_def
                open_files_def update_group_def close_files_def seq_def
                emit_def amroot_def dup_list_def initial_state_def
                ex_cfg_def ex_world_def ex_args_r_def ex_gr_def ex_sg_def
                outcome_trace_def Let_def)

end
